theory Spec2Isabelle
  imports Complex_Main
begin

section \<open>Python strings\<close>

text \<open>
  Text is a \<open>string\<close> (a list of 8-bit characters); the model covers ASCII text, for
  which \<open>len\<close> is the list length. \<open>py_isspace\<close> lists the ASCII characters that
  Python's \<open>str.isspace\<close> accepts, \<open>strip\<close> is \<open>str.strip()\<close>, \<open>lower\<close> is
  \<open>str.lower()\<close> and \<open>py_slice s a b\<close> is \<open>s[a:b]\<close> with Python's treatment of
  negative and out-of-range bounds.
\<close>

definition py_isspace :: "char \<Rightarrow> bool" where
  "py_isspace c \<longleftrightarrow>
     c \<in> set [CHR 0x09, CHR 0x0A, CHR 0x0B, CHR 0x0C, CHR 0x0D,
                CHR 0x1C, CHR 0x1D, CHR 0x1E, CHR 0x1F, CHR 0x20]"

definition strip :: "string \<Rightarrow> string" where
  "strip s = rev (dropWhile py_isspace (rev (dropWhile py_isspace s)))"

definition lower_char :: "char \<Rightarrow> char" where
  "lower_char c =
     (case map_of (zip ''ABCDEFGHIJKLMNOPQRSTUVWXYZ'' ''abcdefghijklmnopqrstuvwxyz'') c of
        None \<Rightarrow> c
      | Some l \<Rightarrow> l)"

definition lower :: "string \<Rightarrow> string" where
  "lower s = map lower_char s"

definition norm_index :: "nat \<Rightarrow> int \<Rightarrow> nat" where
  "norm_index n i = (if i < 0 then nat (max 0 (int n + i)) else min n (nat i))"

definition py_slice :: "'a list \<Rightarrow> int \<Rightarrow> int \<Rightarrow> 'a list" where
  "py_slice s a b =
     (let i = norm_index (length s) a; j = norm_index (length s) b
      in take (j - i) (drop i s))"


text \<open>\<open>str_int\<close> is \<open>str\<close> on an integer, as an f-string renders it.\<close>

definition digit_char :: "nat \<Rightarrow> char" where
  "digit_char d = ''0123456789'' ! d"

fun digits :: "nat \<Rightarrow> string" where
  "digits n = (if n < 10 then [digit_char n] else digits (n div 10) @ [digit_char (n mod 10)])"

definition str_int :: "int \<Rightarrow> string" where
  "str_int i = (if i < 0 then CHR ''-'' # digits (nat (- i)) else digits (nat i))"

text \<open>\<open>str.startswith\<close>, \<open>kw in text\<close> on strings, and \<open>str.endswith\<close>.\<close>

definition startswith :: "string \<Rightarrow> string \<Rightarrow> bool" where
  "startswith s pre \<longleftrightarrow> take (length pre) s = pre"

fun contains :: "string \<Rightarrow> string \<Rightarrow> bool" where
  "contains kw [] = (kw = [])"
| "contains kw (c # cs) = (startswith (c # cs) kw \<or> contains kw cs)"

definition endswith :: "string \<Rightarrow> string \<Rightarrow> bool" where
  "endswith s suf \<longleftrightarrow> length suf \<le> length s \<and> drop (length s - length suf) s = suf"

text \<open>
  In classifier.py floats are modelled by exact rationals. \<open>py_round x n\<close> is
  \<open>round(x, n)\<close>: the nearest multiple of \<open>10 ^ - n\<close>, a tie going to the even one.
\<close>

definition round_half_even :: "rat \<Rightarrow> int" where
  "round_half_even x =
     (let f = \<lfloor>x\<rfloor>; d = x - of_int f
      in if d < 1 / 2 then f else if 1 / 2 < d then f + 1 else if even f then f else f + 1)"

definition py_round :: "rat \<Rightarrow> nat \<Rightarrow> rat" where
  "py_round x n = of_int (round_half_even (x * 10 ^ n)) / 10 ^ n"

section \<open>Python floats\<close>

text \<open>
  The scores of rag.py are Python floats, that is IEEE 754 doubles. \<open>Finite r\<close> is the
  double of value \<open>r\<close>; the two zeros are one value (\<open>1.0 - x\<close> is never the negative
  zero, and comparisons do not tell the zeros apart).
  \<open>round_to_double x\<close> is the double nearest to the rational \<open>x\<close>, a tie going to the
  even significand: \<open>x\<close> is rounded to a multiple of \<open>2 ^ (e - 52)\<close>, where \<open>e\<close> is the
  binary exponent of \<open>x\<close>, not below \<open>- 1022\<close> (the subnormal range) and not above
  1023; a result of magnitude \<open>2 ^ 1024\<close> is an infinity. \<open>halvings\<close> and \<open>doublings\<close>
  find the exponent.
\<close>

datatype pyfloat = Finite rat | PosInf | NegInf | NaN

fun halvings :: "nat \<Rightarrow> rat \<Rightarrow> nat" where
  "halvings 0 x = 0"
| "halvings (Suc fuel) x = (if x < 2 then 0 else Suc (halvings fuel (x / 2)))"

fun doublings :: "nat \<Rightarrow> rat \<Rightarrow> nat" where
  "doublings 0 x = 0"
| "doublings (Suc fuel) x = (if 1 \<le> 2 * x then 1 else Suc (doublings fuel (2 * x)))"

definition float_exponent :: "rat \<Rightarrow> int" where
  "float_exponent x =
     (if 1 \<le> \<bar>x\<bar> then int (halvings 1023 \<bar>x\<bar>) else - int (doublings 1022 \<bar>x\<bar>))"

definition overflow_threshold :: rat where
  "overflow_threshold = 2 ^ 1024"

definition round_to_double :: "rat \<Rightarrow> pyfloat" where
  "round_to_double x =
     (if x = 0 then Finite 0
      else
        (let q = 2 powi (float_exponent x - 52);
             y = of_int (round_half_even (x / q)) * q
         in if overflow_threshold \<le> y then PosInf
            else if y \<le> - overflow_threshold then NegInf
            else Finite y))"

text \<open>
  \<open>float_sub\<close> is \<open>a - b\<close> and \<open>float_less\<close> is \<open>a < b\<close>. \<open>py_min a b\<close> and
  \<open>py_max a b\<close> are \<open>min(a, b)\<close> and \<open>max(a, b)\<close>: the builtins keep their first
  argument unless the second compares strictly below (above) it, so a NaN in second
  place is dropped. \<open>float_round x n\<close> is \<open>round(x, n)\<close>: the exact value of \<open>x\<close> is
  rounded to \<open>n\<close> decimals, a tie going to the even digit, and the double nearest to
  that decimal is returned; an infinity or a NaN is returned as it is.
\<close>

fun float_sub :: "pyfloat \<Rightarrow> pyfloat \<Rightarrow> pyfloat" where
  "float_sub (Finite a) (Finite b) = round_to_double (a - b)"
| "float_sub NaN b = NaN"
| "float_sub a NaN = NaN"
| "float_sub (Finite a) PosInf = NegInf"
| "float_sub (Finite a) NegInf = PosInf"
| "float_sub PosInf PosInf = NaN"
| "float_sub PosInf b = PosInf"
| "float_sub NegInf NegInf = NaN"
| "float_sub NegInf b = NegInf"

fun float_less :: "pyfloat \<Rightarrow> pyfloat \<Rightarrow> bool" where
  "float_less (Finite a) (Finite b) = (a < b)"
| "float_less NaN b = False"
| "float_less a NaN = False"
| "float_less (Finite a) PosInf = True"
| "float_less (Finite a) NegInf = False"
| "float_less PosInf b = False"
| "float_less NegInf NegInf = False"
| "float_less NegInf b = True"

definition py_min :: "pyfloat \<Rightarrow> pyfloat \<Rightarrow> pyfloat" where
  "py_min a b = (if float_less b a then b else a)"

definition py_max :: "pyfloat \<Rightarrow> pyfloat \<Rightarrow> pyfloat" where
  "py_max a b = (if float_less a b then b else a)"

definition float_round :: "pyfloat \<Rightarrow> nat \<Rightarrow> pyfloat" where
  "float_round x ndigits =
     (case x of
        Finite r \<Rightarrow> round_to_double (of_int (round_half_even (r * 10 ^ ndigits)) / 10 ^ ndigits)
      | _ \<Rightarrow> x)"

section \<open>Python exceptions and indexing\<close>

text \<open>
  Exceptions are values: a function that can raise returns \<open>py_error + 'a\<close>, with
  \<open>Inl\<close> the exception. \<open>py_index xs i\<close> is \<open>xs[i]\<close>.
\<close>

datatype py_error = IndexError | ValueError | DocumentReadError | ExternalError

definition py_index :: "'a list \<Rightarrow> int \<Rightarrow> py_error + 'a" where
  "py_index xs i =
     (if i < - int (length xs) \<or> int (length xs) \<le> i then Inl IndexError
      else Inr (xs ! (if i < 0 then nat (int (length xs) + i) else nat i)))"

definition py_set_index :: "'a list \<Rightarrow> int \<Rightarrow> 'a \<Rightarrow> 'a list" where
  "py_set_index xs i v = xs[nat (if i < 0 then int (length xs) + i else i) := v]"

section \<open>doc_utils.py\<close>

text \<open>
  A document is its list of paragraphs, a paragraph its style and its runs. A run is
  text with its bold and highlight marks, or a page break. \<open>para_text\<close> is
  \<open>paragraph.text\<close>.
\<close>

datatype run = Text_Run string bool bool | Page_Break

record docx_paragraph =
  par_style :: "string option"
  par_runs :: "run list"

type_synonym document = "docx_paragraph list"

fun run_text :: "run \<Rightarrow> string" where
  "run_text (Text_Run t b h) = t"
| "run_text Page_Break = []"

definition para_text :: "docx_paragraph \<Rightarrow> string" where
  "para_text p = concat (map run_text (par_runs p))"

definition read_docx_paragraphs :: "document \<Rightarrow> (int \<times> string) list" where
  "read_docx_paragraphs doc =
     filter (\<lambda>(i, t). t \<noteq> [])
       (map (\<lambda>(i, para). (int i, strip (para_text para))) (enumerate 0 doc))"

definition add_highlighted_note :: "docx_paragraph \<Rightarrow> string \<Rightarrow> int option \<Rightarrow> docx_paragraph" where
  "add_highlighted_note para note_text note_id =
     (let marker = '' [AI NOTE'';
          marker = (case note_id of None \<Rightarrow> marker | Some n \<Rightarrow> marker @ '' #'' @ str_int n);
          marker = marker @ '': '' @ note_text @ '']''
      in para\<lparr>par_runs := par_runs para @ [Text_Run marker False True]\<rparr>)"

record ai_note =
  note_id :: int
  note_text :: string
  note_para_index :: int

text \<open>
  The first loop of \<open>annotate_docx\<close>, over the annotations, with the document, the
  notes so far and the note counter as its state. \<open>doc.paragraphs[para_idx]\<close> is
  Python indexing, so a negative index counts from the end and one below
  \<open>- len\<close> raises.
\<close>

fun annotate_loop ::
  "document \<Rightarrow> (int \<times> string) list \<Rightarrow> ai_note list \<Rightarrow> int \<Rightarrow> py_error + (document \<times> ai_note list)" where
  "annotate_loop doc [] notes note_counter = Inr (doc, notes)"
| "annotate_loop doc ((para_idx, comment_text) # rest) notes note_counter =
     (if para_idx < int (length doc) then
        (case py_index doc para_idx of
           Inl e \<Rightarrow> Inl e
         | Inr para \<Rightarrow>
             annotate_loop
               (py_set_index doc para_idx
                  (add_highlighted_note para comment_text (Some note_counter)))
               rest
               (notes @ [\<lparr>note_id = note_counter, note_text = comment_text,
                           note_para_index = para_idx\<rparr>])
               (note_counter + 1))
      else annotate_loop doc rest notes note_counter)"

definition page_break_paragraph :: docx_paragraph where
  "page_break_paragraph = \<lparr>par_style = None, par_runs = [Page_Break]\<rparr>"

definition heading_paragraph :: docx_paragraph where
  "heading_paragraph =
     \<lparr>par_style = Some ''Heading 1'', par_runs = [Text_Run ''AI NOTES'' False False]\<rparr>"

definition note_paragraph :: "ai_note \<Rightarrow> docx_paragraph" where
  "note_paragraph n =
     \<lparr>par_style = None,
      par_runs =
        [Text_Run (''[AI NOTE #'' @ str_int (note_id n) @ ''] '') True False,
         Text_Run (''Paragraph index: '' @ str_int (note_para_index n) @ ''. '' @ note_text n)
           False False]\<rparr>"

text \<open>
  \<open>annotate_docx\<close> returns the document it saves; \<open>can_save\<close> says whether
  \<open>doc.save\<close> succeeds.
\<close>

definition annotate_docx :: "document \<Rightarrow> (int \<times> string) list \<Rightarrow> bool \<Rightarrow> py_error + document" where
  "annotate_docx doc annotations can_save =
     (case annotate_loop doc annotations [] 1 of
        Inl e \<Rightarrow> Inl e
      | Inr (doc', notes) \<Rightarrow>
          if can_save
          then Inr (doc' @ [page_break_paragraph, heading_paragraph] @ map note_paragraph notes)
          else Inl ExternalError)"

section \<open>rag.py: the sliding-window chunker\<close>

text \<open>
  \<open>chunk_text_generator\<close> is a generator around a \<open>while\<close> loop. \<open>chunk_loop\<close> is
  that loop from a given \<open>start\<close>; the fuel bounds the number of iterations, and
  \<open>None\<close> says that the loop is still running when the fuel is used up. The result
  \<open>Some cs\<close> is the finished sequence of yielded chunks.
  \<open>chunk_emitted\<close> is the sequence of chunks yielded during the first \<open>fuel\<close>
  iterations, whether or not the loop has ended by then.
\<close>

fun chunk_loop :: "nat \<Rightarrow> string \<Rightarrow> int \<Rightarrow> int \<Rightarrow> int \<Rightarrow> string list option" where
  "chunk_loop fuel text chunk_size overlap start =
     (let text_len = int (length text) in
      if start < text_len then
        (case fuel of
           0 \<Rightarrow> None
         | Suc fuel' \<Rightarrow>
             (let endp = min (start + chunk_size) text_len;
                  chunk = strip (py_slice text start endp);
                  yielded = (if chunk \<noteq> [] then [chunk] else []);
                  start' = max 0 (endp - overlap)
              in if start' \<ge> text_len then Some yielded
                 else map_option (\<lambda>rest. yielded @ rest)
                        (chunk_loop fuel' text chunk_size overlap start')))
      else Some [])"

fun chunk_emitted :: "nat \<Rightarrow> string \<Rightarrow> int \<Rightarrow> int \<Rightarrow> int \<Rightarrow> string list" where
  "chunk_emitted fuel text chunk_size overlap start =
     (let text_len = int (length text) in
      if start < text_len then
        (case fuel of
           0 \<Rightarrow> []
         | Suc fuel' \<Rightarrow>
             (let endp = min (start + chunk_size) text_len;
                  chunk = strip (py_slice text start endp);
                  yielded = (if chunk \<noteq> [] then [chunk] else []);
                  start' = max 0 (endp - overlap)
              in if start' \<ge> text_len then yielded
                 else yielded @ chunk_emitted fuel' text chunk_size overlap start'))
      else [])"

definition chunk_text_generator :: "nat \<Rightarrow> string \<Rightarrow> int \<Rightarrow> int \<Rightarrow> string list option" where
  "chunk_text_generator fuel text chunk_size overlap =
     chunk_loop fuel text chunk_size overlap 0"

declare chunk_loop.simps [simp del] chunk_emitted.simps [simp del]


section \<open>rag.py: the store, retrieval and ingestion\<close>

text \<open>
  Metadata is a dictionary of scalar values, kept as an association list. The vector
  store is an external service: \<open>collection_available\<close> says whether
  \<open>get_collection\<close> succeeds, \<open>run_query\<close> is \<open>collection.query\<close>,
  \<open>entries\<close> are the stored chunks, \<open>get_fails\<close> says whether
  \<open>collection.get\<close> raises, \<open>rejects\<close> for which chunks \<open>collection.add\<close>
  raises and \<open>create_fails\<close> whether \<open>create_collection\<close> raises. A distance is the
  double that \<open>float(dist)\<close> returns, or \<open>None\<close> when \<open>float(dist)\<close> raises. In a
  query result a field is \<open>None\<close> when the key is absent.
\<close>

datatype meta_value = MBool bool | MInt int | MFloat rat | MStr string | MNone | MOther string

type_synonym metadata = "(string \<times> meta_value) list"

record query_result =
  res_documents :: "string option list list option"
  res_metadatas :: "metadata option list list option"
  res_distances :: "pyfloat option list list option"

record stored_chunk =
  chunk_id :: string
  chunk_document :: string
  chunk_metadata :: "metadata option"

record chroma =
  collection_available :: bool
  run_query :: "string \<Rightarrow> int \<Rightarrow> py_error + query_result"
  entries :: "stored_chunk list"
  get_fails :: bool
  rejects :: "stored_chunk \<Rightarrow> bool"
  create_fails :: bool

record evidence =
  ev_text :: string
  ev_meta :: metadata
  ev_score :: "pyfloat option"

datatype retrieved = Raw_Item "string option" | Dict_Item evidence

text \<open>\<open>first_list field\<close> is \<open>results.get(key, [[]])[0]\<close>.\<close>

definition first_list :: "'a list list option \<Rightarrow> py_error + 'a list" where
  "first_list field = py_index (case field of None \<Rightarrow> [[]] | Some v \<Rightarrow> v) 0"

text \<open>The body of the loop over \<open>zip(docs, metas, dists)\<close>.\<close>

definition structured_item :: "string option \<Rightarrow> metadata option \<Rightarrow> pyfloat option \<Rightarrow> evidence" where
  "structured_item d m distance =
     (let sim = (case distance of
                   None \<Rightarrow> None
                 | Some x \<Rightarrow> Some (py_max (Finite 0) (py_min (Finite 1) (float_sub (Finite 1) x))))
      in \<lparr>ev_text = (case d of
                       None \<Rightarrow> []
                     | Some t \<Rightarrow> if t \<noteq> [] \<and> length t > 1000
                                 then py_slice t 0 1000 @ ''...'' else t),
          ev_meta = (case m of None \<Rightarrow> [] | Some v \<Rightarrow> v),
          ev_score = (case sim of None \<Rightarrow> None | Some s \<Rightarrow> Some (float_round s 4))\<rparr>)"

definition retrieve_relevant_sections ::
  "chroma \<Rightarrow> string \<Rightarrow> int \<Rightarrow> bool \<Rightarrow> py_error + retrieved list" where
  "retrieve_relevant_sections store query_text n_results return_raw =
     (if \<not> collection_available store then Inr []
      else case run_query store query_text n_results of
        Inl e \<Rightarrow> Inr []
      | Inr results \<Rightarrow>
          (case first_list (res_documents results) of
             Inl e \<Rightarrow> Inl e
           | Inr docs \<Rightarrow>
          (case first_list (res_metadatas results) of
             Inl e \<Rightarrow> Inl e
           | Inr metas \<Rightarrow>
          (case first_list (res_distances results) of
             Inl e \<Rightarrow> Inl e
           | Inr dists \<Rightarrow>
               if return_raw then Inr (map Raw_Item docs)
               else Inr (map (\<lambda>(d, m, distance). Dict_Item (structured_item d m distance))
                           (zip docs (zip metas dists)))))))"

text \<open>
  \<open>retrieve_evidence\<close> is the helper of \<open>analyze_file\<close> (analyzer.py): its whole
  body is inside \<open>try\<close>, and the handler returns the empty list.
\<close>

definition evidence_of_item :: "retrieved \<Rightarrow> evidence" where
  "evidence_of_item item =
     (case item of
        Dict_Item e \<Rightarrow> \<lparr>ev_text = ev_text e, ev_meta = ev_meta e, ev_score = ev_score e\<rparr>
      | Raw_Item d \<Rightarrow>
          \<lparr>ev_text = (case d of None \<Rightarrow> ''None'' | Some t \<Rightarrow> t), ev_meta = [], ev_score = None\<rparr>)"

definition retrieve_evidence :: "chroma \<Rightarrow> string \<Rightarrow> int \<Rightarrow> evidence list" where
  "retrieve_evidence store query_text n_results =
     (case retrieve_relevant_sections store query_text n_results False of
        Inl e \<Rightarrow> []
      | Inr docs \<Rightarrow> map evidence_of_item docs)"

text \<open>\<open>clean_metadata\<close>: \<open>None\<close> values are dropped, non-scalar values stringified.\<close>

fun clean_metadata :: "metadata \<Rightarrow> metadata" where
  "clean_metadata [] = []"
| "clean_metadata ((k, v) # rest) =
     (case v of
        MNone \<Rightarrow> clean_metadata rest
      | MOther s \<Rightarrow> (k, MStr s) # clean_metadata rest
      | _ \<Rightarrow> (k, v) # clean_metadata rest)"

text \<open>
  Ingestion. A source file is given by its name, whether it is a regular file, its
  SHA-256 checksum and the pages that \<open>read_pdf\<close> or \<open>read_docx\<close> returns for it.
  \<open>uuid4\<close> is the supply of fresh identifiers. The state of a run is the store, the
  number of identifiers drawn and \<open>total_chunks\<close>.
\<close>

record page =
  pg_no :: int
  pg_text :: string
  pg_para_index :: "int option"

record source_file =
  fname :: string
  is_file :: bool
  checksum :: string
  pages :: "page list"

record ingest_state =
  ing_store :: chroma
  ing_drawn :: nat
  ing_total_chunks :: nat

text \<open>Python's truth value of a metadata value, as in \<open>meta.get("file_hash")\<close>.\<close>

fun truthy :: "meta_value \<Rightarrow> bool" where
  "truthy (MBool b) = b"
| "truthy (MInt i) = (i \<noteq> 0)"
| "truthy (MFloat x) = (x \<noteq> 0)"
| "truthy (MStr s) = (s \<noteq> [])"
| "truthy MNone = False"
| "truthy (MOther s) = True"

definition existing_metadatas :: "chroma \<Rightarrow> metadata option list" where
  "existing_metadatas store =
     (if get_fails store then [] else map chunk_metadata (entries store))"

fun ingested_hashes_of :: "metadata option list \<Rightarrow> meta_value list" where
  "ingested_hashes_of [] = []"
| "ingested_hashes_of (None # rest) = ingested_hashes_of rest"
| "ingested_hashes_of (Some m # rest) =
     (if m \<noteq> [] then
        (case map_of m ''file_hash'' of
           Some v \<Rightarrow> if truthy v then v # ingested_hashes_of rest else ingested_hashes_of rest
         | None \<Rightarrow> ingested_hashes_of rest)
      else ingested_hashes_of rest)"

definition segments_of :: "string \<Rightarrow> string list" where
  "segments_of page_text =
     (let max_seg = 6000 in
      if length page_text > max_seg
      then map (\<lambda>k. py_slice page_text (int (k * max_seg)) (int (k * max_seg + max_seg)))
             [0..<(length page_text + max_seg - 1) div max_seg]
      else [page_text])"

definition add_chunk ::
  "(nat \<Rightarrow> string) \<Rightarrow> source_file \<Rightarrow> page \<Rightarrow> nat \<Rightarrow> ingest_state \<Rightarrow> nat \<times> string \<Rightarrow> ingest_state" where
  "add_chunk uuid4 f pg seg_idx st ic =
     (let chunk_idx = fst ic; chunk = snd ic;
          new_id = uuid4 (ing_drawn st);
          md = [(''source_file'', MStr (fname f)),
                (''page'', MInt (pg_no pg)),
                (''para_index'', (case pg_para_index pg of None \<Rightarrow> MNone | Some i \<Rightarrow> MInt i)),
                (''segment_index'', MInt (int seg_idx)),
                (''chunk_index'', MInt (int chunk_idx)),
                (''char_count'', MInt (int (length chunk))),
                (''file_hash'', MStr (checksum f))];
          item = \<lparr>chunk_id = new_id, chunk_document = chunk,
                  chunk_metadata = Some (clean_metadata md)\<rparr>;
          store = ing_store st
      in if rejects store item
         then st\<lparr>ing_drawn := ing_drawn st + 1\<rparr>
         else st\<lparr>ing_store := store\<lparr>entries := entries store @ [item]\<rparr>,
                 ing_drawn := ing_drawn st + 1,
                 ing_total_chunks := ing_total_chunks st + 1\<rparr>)"

text \<open>
  The loops over the segments of a page and over the pages of a file. A segment whose
  chunker does not finish within the fuel leaves the run unfinished (\<open>None\<close>).
\<close>

fun ingest_segments ::
  "nat \<Rightarrow> (nat \<Rightarrow> string) \<Rightarrow> source_file \<Rightarrow> page \<Rightarrow> (nat \<times> string) list \<Rightarrow> ingest_state
     \<Rightarrow> ingest_state option" where
  "ingest_segments fuel uuid4 f pg [] st = Some st"
| "ingest_segments fuel uuid4 f pg ((seg_idx, seg) # rest) st =
     (case chunk_text_generator fuel seg 1200 200 of
        None \<Rightarrow> None
      | Some chunks \<Rightarrow>
          ingest_segments fuel uuid4 f pg rest
            (foldl (add_chunk uuid4 f pg seg_idx) st (enumerate 0 chunks)))"

fun ingest_pages ::
  "nat \<Rightarrow> (nat \<Rightarrow> string) \<Rightarrow> source_file \<Rightarrow> page list \<Rightarrow> ingest_state \<Rightarrow> ingest_state option" where
  "ingest_pages fuel uuid4 f [] st = Some st"
| "ingest_pages fuel uuid4 f (pg # rest) st =
     (case ingest_segments fuel uuid4 f pg (enumerate 0 (segments_of (pg_text pg))) st of
        None \<Rightarrow> None
      | Some st' \<Rightarrow> ingest_pages fuel uuid4 f rest st')"

text \<open>The body of the loop over the files of the directory, for one file.\<close>

definition ingest_file ::
  "nat \<Rightarrow> (nat \<Rightarrow> string) \<Rightarrow> meta_value list \<Rightarrow> source_file \<Rightarrow> ingest_state \<Rightarrow> ingest_state option" where
  "ingest_file fuel uuid4 ingested_hashes f st =
     (if \<not> is_file f then Some st
      else if \<not> (endswith (lower (fname f)) ''.pdf'' \<or> endswith (lower (fname f)) ''.docx'')
      then Some st
      else if MStr (checksum f) \<in> set ingested_hashes then Some st
      else ingest_pages fuel uuid4 f (pages f) st)"

fun ingest_files ::
  "nat \<Rightarrow> (nat \<Rightarrow> string) \<Rightarrow> meta_value list \<Rightarrow> source_file list \<Rightarrow> ingest_state
     \<Rightarrow> ingest_state option" where
  "ingest_files fuel uuid4 ingested_hashes [] st = Some st"
| "ingest_files fuel uuid4 ingested_hashes (f # rest) st =
     (case ingest_file fuel uuid4 ingested_hashes f st of
        None \<Rightarrow> None
      | Some st' \<Rightarrow> ingest_files fuel uuid4 ingested_hashes rest st')"

text \<open>
  \<open>get_or_create_collection\<close>: the collection when it exists, a new and empty one
  otherwise.
\<close>

definition get_or_create_collection :: "chroma \<Rightarrow> py_error + chroma" where
  "get_or_create_collection store =
     (if collection_available store then Inr store
      else if create_fails store then Inl ExternalError
      else Inr (store\<lparr>collection_available := True, entries := []\<rparr>))"

text \<open>
  \<open>ingest_sources\<close> on the sorted listing \<open>files\<close> of the data directory
  (\<open>None\<close> for the listing when the directory does not exist). The hashes already
  ingested are read once, before the loop. The result is \<open>None\<close> while the run has
  not finished, \<open>Some (Inl e)\<close> when it raises and \<open>Some (Inr st)\<close> when it returns.
\<close>

definition ingest_sources ::
  "nat \<Rightarrow> (nat \<Rightarrow> string) \<Rightarrow> source_file list option \<Rightarrow> chroma
     \<Rightarrow> (py_error + ingest_state) option" where
  "ingest_sources fuel uuid4 listing store =
     (case listing of
        None \<Rightarrow> Some (Inr \<lparr>ing_store = store, ing_drawn = 0, ing_total_chunks = 0\<rparr>)
      | Some files \<Rightarrow>
          (case get_or_create_collection store of
             Inl e \<Rightarrow> Some (Inl e)
           | Inr collection \<Rightarrow>
               map_option Inr
                 (ingest_files fuel uuid4 (ingested_hashes_of (existing_metadatas collection))
                    files \<lparr>ing_store = collection, ing_drawn = 0, ing_total_chunks = 0\<rparr>)))"

section \<open>llm_utils.py: the provider call\<close>

text \<open>
  The language model is an external service: a provider maps a prompt to the text it
  returns, or to the exception raised on the way (missing key, network failure,
  unsupported provider). \<open>get_llm_response\<close> catches every exception and returns the
  empty string instead.
\<close>

definition get_llm_response :: "(string \<Rightarrow> py_error + string) \<Rightarrow> string \<Rightarrow> string" where
  "get_llm_response provider prompt =
     (case provider prompt of Inl e \<Rightarrow> [] | Inr response \<Rightarrow> response)"

section \<open>classifier.py\<close>

text \<open>
  Dictionaries that are iterated keep their insertion order: they are association
  lists, \<open>dict_get\<close> is \<open>d.get(k, default)\<close> and \<open>dict_set\<close> is \<open>d[k] = v\<close>.
\<close>

definition dict_get :: "('k \<times> 'v) list \<Rightarrow> 'k \<Rightarrow> 'v \<Rightarrow> 'v" where
  "dict_get d k dflt = (case map_of d k of None \<Rightarrow> dflt | Some v \<Rightarrow> v)"

fun dict_set :: "('k \<times> 'v) list \<Rightarrow> 'k \<Rightarrow> 'v \<Rightarrow> ('k \<times> 'v) list" where
  "dict_set [] k v = [(k, v)]"
| "dict_set ((k', v') # rest) k v =
     (if k' = k then (k, v) # rest else (k', v') # dict_set rest k v)"

definition DOC_TYPE_KEYWORDS :: "(string \<times> string list) list" where
  "DOC_TYPE_KEYWORDS =
     [(''Articles of Association'',
         [''articles of association'', ''aoa'', ''company articles'']),
      (''Memorandum of Association'',
         [''memorandum of association'', ''moa'', ''memorandum'']),
      (''UBO Declaration Form'',
         [''ultimate beneficial owner'', ''ubo declaration'', ''ubo form'']),
      (''Register of Members and Directors'',
         [''register of members'', ''register of directors'']),
      (''Board Resolution'',
         [''board resolution'', ''resolution of the board'', ''written resolution'']),
      (''Employment Contract'',
         [''employment contract'', ''employee agreement'', ''terms of employment''])]"

text \<open>The inner loop over the keywords of one type, and the outer loop over the types.\<close>

fun count_keywords ::
  "string \<Rightarrow> string \<Rightarrow> string list \<Rightarrow> (string \<times> int) list \<Rightarrow> (string \<times> int) list" where
  "count_keywords text_lower doc_type [] scores = scores"
| "count_keywords text_lower doc_type (kw # keywords) scores =
     count_keywords text_lower doc_type keywords
       (if contains kw text_lower
        then dict_set scores doc_type (dict_get scores doc_type 0 + 1)
        else scores)"

fun score_types ::
  "string \<Rightarrow> (string \<times> string list) list \<Rightarrow> (string \<times> int) list \<Rightarrow> (string \<times> int) list" where
  "score_types text_lower [] scores = scores"
| "score_types text_lower ((doc_type, keywords) # rest) scores =
     score_types text_lower rest (count_keywords text_lower doc_type keywords scores)"

text \<open>\<open>max(items, key=lambda x: x[1])\<close>: the first item with the greatest count.\<close>

fun max_by_count :: "(string \<times> int) \<Rightarrow> (string \<times> int) list \<Rightarrow> (string \<times> int)" where
  "max_by_count best [] = best"
| "max_by_count best (x # xs) = max_by_count (if snd best < snd x then x else best) xs"

fun join :: "string \<Rightarrow> string list \<Rightarrow> string" where
  "join sep [] = []"
| "join sep [x] = x"
| "join sep (x # y # ys) = x @ sep @ join sep (y # ys)"

definition classifier_prompt :: "string \<Rightarrow> string" where
  "classifier_prompt snippet =
     ''You are an ADGM compliance assistant. '' @
     ''Classify the following document into one of these categories:'' @ [CHR 0x0A] @
     join '', '' (map fst DOC_TYPE_KEYWORDS) @ ''.'' @ [CHR 0x0A] @
     ''Return ONLY the single category name (exactly), or '' @ [CHR 0x27] @ ''Unknown'' @
     [CHR 0x27] @ ''.'' @ [CHR 0x0A, CHR 0x0A] @
     ''Document content:'' @ [CHR 0x0A] @ snippet"

fun first_candidate :: "string list \<Rightarrow> string \<Rightarrow> string option" where
  "first_candidate [] response = None"
| "first_candidate (candidate # rest) response =
     (if contains (lower candidate) (lower response) then Some candidate
      else first_candidate rest response)"

text \<open>
  \<open>classify_doc_type\<close>: \<open>read\<close> is what \<open>docx2txt.process\<close> gives for the file (an
  exception, \<open>None\<close> or the text). Nothing in the fallback's \<open>try\<close> block can raise,
  since \<open>get_llm_response\<close> does not.
\<close>

definition classify_doc_type ::
  "(py_error + string option) \<Rightarrow> (string \<Rightarrow> py_error + string) \<Rightarrow> bool \<Rightarrow> string \<times> rat" where
  "classify_doc_type read provider use_fallback =
     (case read of
        Inl e \<Rightarrow> (''Unknown'', 0)
      | Inr t \<Rightarrow>
          (let text = (case t of None \<Rightarrow> [] | Some s \<Rightarrow> s) in
           if strip text = [] then (''Unknown'', 0)
           else
             (let text_lower = lower text;
                  scores = score_types text_lower DOC_TYPE_KEYWORDS []
              in if scores \<noteq> [] then
                   (let best = max_by_count (hd scores) (tl scores);
                        best_match = fst best; best_count = snd best;
                        total_keywords = max 1 (int (length (dict_get DOC_TYPE_KEYWORDS best_match [])));
                        confidence = of_int best_count / of_int total_keywords;
                        confidence = min 1 confidence
                    in (best_match, py_round confidence 2))
                 else if use_fallback then
                   (let snippet = py_slice text 0 4000;
                        llm_response = get_llm_response provider (classifier_prompt snippet);
                        doc_type = (if llm_response \<noteq> []
                                    then first_candidate (map fst DOC_TYPE_KEYWORDS) llm_response
                                    else None);
                        doc_type = (case doc_type of None \<Rightarrow> ''Unknown'' | Some d \<Rightarrow> d);
                        confidence = (if doc_type \<noteq> ''Unknown'' then 8 / 10 else 35 / 100)
                    in (doc_type, confidence))
                 else (''Unknown'', 0))))"

section \<open>Regular expressions\<close>

text \<open>
  The patterns of the program use literals, character classes, alternation, sequence,
  the optional \<open>?\<close>, the greedy \<open>.*\<close> and the word boundary \<open>\b\<close>. A position of
  the matcher is the character before it (if any) and the rest of the text.
  \<open>rx_match ic r pos\<close> lists the positions at which a match of \<open>r\<close> starting at
  \<open>pos\<close> can end, in the order in which a backtracking matcher tries them; \<open>ic\<close> is
  the flag \<open>IGNORECASE\<close>. \<open>re_search\<close> is \<open>re.search\<close> followed by
  \<open>group(0)\<close>: the text matched at the leftmost position where the pattern matches,
  or \<open>None\<close>.
\<close>

datatype regex =
    Lit string
  | One_Of "char list"
  | Dot_Star bool
  | Word_Boundary
  | Opt regex
  | Seq regex regex
  | Alt regex regex

type_synonym rx_pos = "char option \<times> string"

definition is_word_char :: "char \<Rightarrow> bool" where
  "is_word_char c \<longleftrightarrow>
     c \<in> set ''abcdefghijklmnopqrstuvwxyzABCDEFGHIJKLMNOPQRSTUVWXYZ0123456789_''"

definition at_word_boundary :: "rx_pos \<Rightarrow> bool" where
  "at_word_boundary pos =
     ((case fst pos of None \<Rightarrow> False | Some c \<Rightarrow> is_word_char c) \<noteq>
      (case snd pos of [] \<Rightarrow> False | c # cs \<Rightarrow> is_word_char c))"

fun match_lit :: "bool \<Rightarrow> string \<Rightarrow> rx_pos \<Rightarrow> rx_pos list" where
  "match_lit ic [] pos = [pos]"
| "match_lit ic (l # ls) (prev, []) = []"
| "match_lit ic (l # ls) (prev, c # cs) =
     (if (if ic then lower_char l = lower_char c else l = c)
      then match_lit ic ls (Some c, cs) else [])"

fun dot_star :: "bool \<Rightarrow> rx_pos \<Rightarrow> rx_pos list" where
  "dot_star dotall (prev, []) = [(prev, [])]"
| "dot_star dotall (prev, c # cs) =
     (if dotall \<or> c \<noteq> CHR 0x0A then dot_star dotall (Some c, cs) @ [(prev, c # cs)]
      else [(prev, c # cs)])"

fun rx_match :: "bool \<Rightarrow> regex \<Rightarrow> rx_pos \<Rightarrow> rx_pos list" where
  "rx_match ic (Lit s) pos = match_lit ic s pos"
| "rx_match ic (One_Of cs) pos =
     (case snd pos of
        [] \<Rightarrow> []
      | c # rest \<Rightarrow> if c \<in> set cs then [(Some c, rest)] else [])"
| "rx_match ic (Dot_Star dotall) pos = dot_star dotall pos"
| "rx_match ic Word_Boundary pos = (if at_word_boundary pos then [pos] else [])"
| "rx_match ic (Opt r) pos = rx_match ic r pos @ [pos]"
| "rx_match ic (Seq r1 r2) pos = concat (map (rx_match ic r2) (rx_match ic r1 pos))"
| "rx_match ic (Alt r1 r2) pos = rx_match ic r1 pos @ rx_match ic r2 pos"

fun rx_search :: "bool \<Rightarrow> regex \<Rightarrow> char option \<Rightarrow> string \<Rightarrow> string option" where
  "rx_search ic r prev [] =
     (case rx_match ic r (prev, []) of [] \<Rightarrow> None | e # es \<Rightarrow> Some [])"
| "rx_search ic r prev (c # cs) =
     (case rx_match ic r (prev, c # cs) of
        [] \<Rightarrow> rx_search ic r (Some c) cs
      | e # es \<Rightarrow> Some (take (length (c # cs) - length (snd e)) (c # cs)))"

definition re_search :: "bool \<Rightarrow> regex \<Rightarrow> string \<Rightarrow> string option" where
  "re_search ic r s = rx_search ic r None s"

fun seqs :: "regex list \<Rightarrow> regex" where
  "seqs [] = Lit []"
| "seqs [r] = r"
| "seqs (r # rs) = Seq r (seqs rs)"

fun alts :: "regex list \<Rightarrow> regex" where
  "alts [] = One_Of []"
| "alts [r] = r"
| "alts (r # rs) = Alt r (alts rs)"

text \<open>\<open>\s\<close> in a pattern: the whitespace characters.\<close>

definition space_class :: "char list" where
  "space_class = [CHR 0x09, CHR 0x0A, CHR 0x0B, CHR 0x0C, CHR 0x0D,
                  CHR 0x1C, CHR 0x1D, CHR 0x1E, CHR 0x1F, CHR 0x20]"

section \<open>llm_utils.py: parsing and the retry loop\<close>

text \<open>
  A parsed JSON value; an object is the association list of its dictionary. The parser
  \<open>json.loads\<close> is a parameter \<open>loads\<close>, with \<open>None\<close> when it raises.
\<close>

datatype json =
    JNull
  | JBool bool
  | JNum rat
  | JStr string
  | JArr "json list"
  | JObj "(string \<times> json) list"

type_synonym py_dict = "(string \<times> json) list"

definition safe_extract_json :: "(string \<Rightarrow> json option) \<Rightarrow> string \<Rightarrow> py_error + json" where
  "safe_extract_json loads response =
     (case loads response of
        Some v \<Rightarrow> Inr v
      | None \<Rightarrow>
          (let m = re_search False (seqs [Lit ''['', Dot_Star True, Lit '']'']) response;
               m = (case m of
                      None \<Rightarrow> re_search False (seqs [Lit ''{'', Dot_Star True, Lit ''}'']) response
                    | Some c \<Rightarrow> Some c)
           in case m of
                None \<Rightarrow> Inl ValueError
              | Some candidate \<Rightarrow>
                  (case loads candidate of None \<Rightarrow> Inl ValueError | Some v \<Rightarrow> Inr v)))"

definition analysis_prompt :: "string \<Rightarrow> string \<Rightarrow> string" where
  "analysis_prompt doc_text doc_type =
     [CHR 0x0A] @
     ''You are an expert in ADGM corporate compliance.'' @ [CHR 0x0A] @
     ''Given the following document type: '' @ doc_type @ [CHR 0x0A] @
     ''Analyze the text below for possible compliance issues, ambiguities, or missing required clauses.'' @
     [CHR 0x0A, CHR 0x0A] @
     ''Document Text:'' @ [CHR 0x0A] @
     [CHR 0x22, CHR 0x22, CHR 0x22] @ doc_text @ [CHR 0x22, CHR 0x22, CHR 0x22] @
     [CHR 0x0A, CHR 0x0A] @
     ''Return the issues as a JSON array, each issue containing:'' @ [CHR 0x0A] @
     ''- issue (string)'' @ [CHR 0x0A] @
     ''- severity (High/Medium/Low)'' @ [CHR 0x0A] @
     ''- suggestion (string)'' @ [CHR 0x0A, CHR 0x0A] @
     ''Important:'' @ [CHR 0x0A] @
     ''Return ONLY a JSON array. Do not include any explanatory text or headers.'' @
     [CHR 0x0A] @ ''    ''"

text \<open>The loop that normalises the parsed items.\<close>

fun normalize_items :: "json list \<Rightarrow> py_dict list" where
  "normalize_items [] = []"
| "normalize_items (JObj item # rest) =
     (if ''issue'' \<notin> fst ` set item then normalize_items rest
      else [(''issue'', dict_get item ''issue'' (JStr [])),
            (''severity'', dict_get item ''severity'' (JStr ''Low'')),
            (''suggestion'', dict_get item ''suggestion'' (JStr []))] # normalize_items rest)"
| "normalize_items (other # rest) = normalize_items rest"

text \<open>
  The body of \<open>try\<close> for one attempt: \<open>Inl\<close> when it raises, \<open>Inr\<close> the value
  it returns.
\<close>

definition llm_attempt ::
  "(string \<Rightarrow> json option) \<Rightarrow> (string \<Rightarrow> py_error + string) \<Rightarrow> string \<Rightarrow> py_error + py_dict list" where
  "llm_attempt loads provider prompt =
     (let resp_text = get_llm_response provider prompt in
      if resp_text = [] then Inr []
      else case safe_extract_json loads resp_text of
             Inl e \<Rightarrow> Inl e
           | Inr parsed \<Rightarrow>
               (case parsed of JArr items \<Rightarrow> Inr (normalize_items items) | _ \<Rightarrow> Inr []))"

text \<open>
  The loop over the attempts. The provider may answer each call differently:
  \<open>providers a\<close> is the provider as it answers the call of attempt \<open>a\<close>. The trace
  records the calls made, with their prompts, and the sleeps, with their durations.
\<close>

datatype event = Call string | Sleep int

fun llm_attempts ::
  "(string \<Rightarrow> json option) \<Rightarrow> (nat \<Rightarrow> string \<Rightarrow> py_error + string) \<Rightarrow> string \<Rightarrow> nat list
     \<Rightarrow> event list \<Rightarrow> py_dict list \<times> event list" where
  "llm_attempts loads providers prompt [] trace = ([], trace)"
| "llm_attempts loads providers prompt (attempt # rest) trace =
     (case llm_attempt loads (providers attempt) prompt of
        Inr result \<Rightarrow> (result, trace @ [Call prompt])
      | Inl e \<Rightarrow>
          llm_attempts loads providers prompt rest
            (trace @ [Call prompt, Sleep (1 + int attempt)]))"

definition analyze_with_llm ::
  "(string \<Rightarrow> json option) \<Rightarrow> (nat \<Rightarrow> string \<Rightarrow> py_error + string) \<Rightarrow> string \<Rightarrow> string \<Rightarrow> int
     \<Rightarrow> py_dict list \<times> event list" where
  "analyze_with_llm loads providers doc_text doc_type max_retries =
     llm_attempts loads providers (analysis_prompt doc_text doc_type)
       [0..<nat (max_retries + 1)] []"

section \<open>analyzer.py\<close>

definition NON_ADGM_JURIS_REGEX :: regex where
  "NON_ADGM_JURIS_REGEX =
     seqs [Word_Boundary,
           alts [Lit ''united kingdom'', Lit ''uk'', Lit ''england'', Lit ''usa'',
                 Lit ''united states'', Lit ''federal court'',
                 Lit ''dubai international financial centre'', Lit ''difc''],
           Word_Boundary]"

definition AMBIGUOUS_REGEX :: regex where
  "AMBIGUOUS_REGEX =
     seqs [Word_Boundary,
           alts [seqs [Lit ''may'', Word_Boundary],
                 seqs [Lit ''best endeavo'', Opt (Lit ''u''), Opt (Lit ''r''), Lit ''s'',
                       Word_Boundary],
                 Lit ''best efforts'',
                 Lit ''endeavour to'',
                 seqs [Lit ''could'', Word_Boundary]],
           Word_Boundary]"

definition SIGNATURE_REGEX :: regex where
  "SIGNATURE_REGEX =
     alts [seqs [Lit ''signed'', One_Of (CHR '':'' # space_class)],
           seqs [Lit ''signature'', One_Of (CHR '':'' # space_class)],
           seqs [Lit ''sig'', One_Of (CHR '':'' # space_class)]]"

definition SINGLE_SIGNATORY_REGEX :: regex where
  "SINGLE_SIGNATORY_REGEX =
     seqs [Word_Boundary, alts [Lit ''one'', Lit ''1''], Word_Boundary, Dot_Star False,
           alts [Lit ''authorized signator'', Lit ''authorized signatory'', Lit ''signatory''],
           Word_Boundary]"

definition safe_chars :: "char list" where
  "safe_chars = ''ABCDEFGHIJKLMNOPQRSTUVWXYZabcdefghijklmnopqrstuvwxyz0123456789_.-''"

definition sanitize_name :: "string \<Rightarrow> string" where
  "sanitize_name name_noext =
     py_slice (map (\<lambda>c. if c \<in> set safe_chars then c else CHR ''_'') name_noext) 0 120"

text \<open>\<open>os.path.basename\<close> and the root part of \<open>os.path.splitext\<close>.\<close>

definition basename_of :: "string \<Rightarrow> string" where
  "basename_of p = rev (takeWhile (\<lambda>c. c \<noteq> CHR ''/'') (rev p))"

definition splitext_root :: "string \<Rightarrow> string" where
  "splitext_root p =
     (if CHR ''.'' \<in> set p then
        (let root = rev (tl (dropWhile (\<lambda>c. c \<noteq> CHR ''.'') (rev p)))
         in if \<exists>c \<in> set root. c \<noteq> CHR ''.'' then root else p)
      else p)"

text \<open>The clock: a UTC date and time, and \<open>strftime("%Y%m%dT%H%M%SZ")\<close>.\<close>

record datetime =
  dt_year :: nat
  dt_month :: nat
  dt_day :: nat
  dt_hour :: nat
  dt_minute :: nat
  dt_second :: nat

definition pad :: "nat \<Rightarrow> nat \<Rightarrow> string" where
  "pad width n = replicate (width - length (digits n)) CHR ''0'' @ digits n"

definition strftime_compact :: "datetime \<Rightarrow> string" where
  "strftime_compact d =
     pad 4 (dt_year d) @ pad 2 (dt_month d) @ pad 2 (dt_day d) @ ''T'' @
     pad 2 (dt_hour d) @ pad 2 (dt_minute d) @ pad 2 (dt_second d) @ ''Z''"

record issue =
  iss_document :: string
  iss_doc_type :: string
  iss_section :: json
  iss_issue :: json
  iss_severity :: json
  iss_suggestion :: json
  iss_evidence :: "evidence list"

record report =
  file_analyzed :: string
  rep_doc_type :: string
  classification_confidence :: rat
  num_paragraphs :: nat
  issues_found :: "issue list"
  annotated_file :: "string option"
  report_file :: "string option"
  analyzed_at :: string

text \<open>
  What \<open>analyze_file\<close> depends on besides its arguments: the store, the language
  model (for the classifier and for each attempt of the analysis), the JSON parser, the
  clock, the output directory and whether a file can be written at a path. The file to
  analyse is given by its path, by what \<open>docx2txt\<close> reads from it and by the document
  that \<open>Document(docx_path)\<close> parses from it, or the exception raised.
\<close>

record analysis_env =
  env_store :: chroma
  env_classifier_llm :: "string \<Rightarrow> py_error + string"
  env_analysis_llm :: "nat \<Rightarrow> string \<Rightarrow> py_error + string"
  env_json_loads :: "string \<Rightarrow> json option"
  env_now :: datetime
  env_outputs_dir :: string
  env_can_save :: "string \<Rightarrow> bool"

record docx_file =
  file_path :: string
  file_docx2txt :: "py_error + string option"
  file_document :: "py_error + document"

text \<open>Step 5, the document-level check: the issues and annotations it appends.\<close>

definition signature_check ::
  "chroma \<Rightarrow> string \<Rightarrow> string \<Rightarrow> (int \<times> string) list \<Rightarrow> string
     \<Rightarrow> issue list \<times> (int \<times> string) list" where
  "signature_check store basename doc_type paras whole_text =
     (if re_search True SIGNATURE_REGEX (lower whole_text) = None then
        (let suggestion = ''Add signature block with name, position and date.'';
             finding = \<lparr>iss_document = basename, iss_doc_type = doc_type,
                        iss_section = JStr ''Signatures'',
                        iss_issue = JStr ''Possible missing signature block'',
                        iss_severity = JStr ''High'',
                        iss_suggestion = JStr suggestion,
                        iss_evidence = retrieve_evidence store ''signature block example'' 2\<rparr>
         in ([finding],
             [(if paras \<noteq> [] then int (length paras) - 1 else 0, suggestion)]))
      else ([], []))"

text \<open>
  Step 6, the loop over the paragraphs. Its state is the pair of the lists \<open>issues\<close>
  and \<open>annotations\<close>. Each of the three \<open>if\<close> blocks of the body is a function
  on that state, and the body applies them in the order of the source.
\<close>

type_synonym findings = "issue list \<times> (int \<times> string) list"

definition jurisdiction_check ::
  "chroma \<Rightarrow> string \<Rightarrow> string \<Rightarrow> int \<Rightarrow> string \<Rightarrow> findings \<Rightarrow> findings" where
  "jurisdiction_check store basename doc_type idx lower_text st =
     (case re_search True NON_ADGM_JURIS_REGEX lower_text of
        None \<Rightarrow> st
      | Some found \<Rightarrow>
          (fst st @
             [\<lparr>iss_document = basename, iss_doc_type = doc_type,
               iss_section = JStr (''Paragraph '' @ str_int idx),
               iss_issue = JStr (''Non-ADGM jurisdiction referenced: '' @
                                 [CHR 0x27] @ found @ [CHR 0x27]),
               iss_severity = JStr ''High'',
               iss_suggestion = JStr
                 ''Change jurisdiction to ADGM/ADGM Courts if incorporation is in ADGM.'',
               iss_evidence = retrieve_evidence store ''ADGM jurisdiction requirement'' 2\<rparr>],
           snd st @
             [(idx, ''Jurisdiction appears non-ADGM: '' @ found @
                    ''. Suggest: use ADGM jurisdiction.'')]))"

definition ambiguity_check ::
  "chroma \<Rightarrow> string \<Rightarrow> string \<Rightarrow> int \<Rightarrow> string \<Rightarrow> findings \<Rightarrow> findings" where
  "ambiguity_check store basename doc_type idx lower_text st =
     (if re_search True AMBIGUOUS_REGEX lower_text \<noteq> None then
        (fst st @
           [\<lparr>iss_document = basename, iss_doc_type = doc_type,
             iss_section = JStr (''Paragraph '' @ str_int idx),
             iss_issue = JStr
               ''Potentially ambiguous/non-binding language (may, best endeavours, etc.)'',
             iss_severity = JStr ''Medium'',
             iss_suggestion = JStr (''Consider using stronger binding language (e.g., '' @
                [CHR 0x27] @ ''shall'' @ [CHR 0x27] @ '') for obligations.''),
             iss_evidence = retrieve_evidence store ''binding language shall vs may'' 1\<rparr>],
         snd st @
           [(idx, ''Potentially ambiguous language found. Replace with stronger terms.'')])
      else st)"

definition signatory_check ::
  "chroma \<Rightarrow> string \<Rightarrow> string \<Rightarrow> int \<Rightarrow> string \<Rightarrow> findings \<Rightarrow> findings" where
  "signatory_check store basename doc_type idx lower_text st =
     (if re_search True SINGLE_SIGNATORY_REGEX lower_text \<noteq> None then
        (fst st @
           [\<lparr>iss_document = basename, iss_doc_type = doc_type,
             iss_section = JStr (''Paragraph '' @ str_int idx),
             iss_issue = JStr ''Only one authorized signatory specified'',
             iss_severity = JStr ''Medium'',
             iss_suggestion = JStr
               ''Confirm checklist requirement; consider adding an additional authorized signatory.'',
             iss_evidence =
               retrieve_evidence store ''signature requirement multiple signatories'' 1\<rparr>],
         snd st @
           [(idx, ''Only one authorized signatory specified. Consider adding another.'')])
      else st)"

definition paragraph_checks ::
  "chroma \<Rightarrow> string \<Rightarrow> string \<Rightarrow> findings \<Rightarrow> int \<times> string \<Rightarrow> findings" where
  "paragraph_checks store basename doc_type st para =
     (let idx = fst para; lower_text = lower (snd para) in
      if strip lower_text = [] then st
      else signatory_check store basename doc_type idx lower_text
             (ambiguity_check store basename doc_type idx lower_text
                (jurisdiction_check store basename doc_type idx lower_text st)))"

text \<open>Step 7, the issues that the loop over the language model's findings appends.\<close>

fun llm_issues_normalized :: "string \<Rightarrow> string \<Rightarrow> py_dict list \<Rightarrow> issue list" where
  "llm_issues_normalized basename doc_type [] = []"
| "llm_issues_normalized basename doc_type (li # rest) =
     (if ''issue'' \<notin> fst ` set li then llm_issues_normalized basename doc_type rest
      else \<lparr>iss_document = basename, iss_doc_type = doc_type,
             iss_section = dict_get li ''section'' (JStr ''LLM Analysis''),
             iss_issue = dict_get li ''issue'' JNull,
             iss_severity = dict_get li ''severity'' (JStr ''Low''),
             iss_suggestion = dict_get li ''suggestion'' (JStr []),
             iss_evidence = []\<rparr> # llm_issues_normalized basename doc_type rest)"

text \<open>Step 7: the issues appended when the language model is used.\<close>

definition llm_findings :: "analysis_env \<Rightarrow> string \<Rightarrow> string \<Rightarrow> string \<Rightarrow> issue list" where
  "llm_findings env basename doc_type whole_text =
     (let doc_excerpt = (if length whole_text < 20000 then whole_text
                         else py_slice whole_text 0 20000);
          llm_issues = fst (analyze_with_llm (env_json_loads env) (env_analysis_llm env)
                              doc_excerpt doc_type 2)
      in llm_issues_normalized basename doc_type llm_issues)"

text \<open>Step 9: the annotated document, or a copy of the original; the path recorded.\<close>

definition save_annotated_document ::
  "analysis_env \<Rightarrow> document \<Rightarrow> (int \<times> string) list \<Rightarrow> bool \<Rightarrow> string \<Rightarrow> string option" where
  "save_annotated_document env doc annotations save_annotated annotated_path =
     (if save_annotated \<and> annotations \<noteq> [] then
        (case annotate_docx doc annotations (env_can_save env annotated_path) of
           Inl e \<Rightarrow> None
         | Inr saved \<Rightarrow> Some annotated_path)
      else if env_can_save env annotated_path then Some annotated_path
      else None)"

definition analyze_file :: "analysis_env \<Rightarrow> docx_file \<Rightarrow> bool \<Rightarrow> bool \<Rightarrow> py_error + report" where
  "analyze_file env file save_annotated use_llm =
     (let basename = basename_of (file_path file);
          name_noext = splitext_root basename;
          safe_name = sanitize_name name_noext;
          timestamp = strftime_compact (env_now env);
          classified = classify_doc_type (file_docx2txt file) (env_classifier_llm env) True;
          doc_type = fst classified;
          confidence = snd classified
      in case file_document file of
           Inl e \<Rightarrow> Inl e
         | Inr doc \<Rightarrow>
             (let paras = read_docx_paragraphs doc;
                  whole_text = join [CHR 0x0A] (map snd paras);
                  st = signature_check (env_store env) basename doc_type paras whole_text;
                  st = foldl (paragraph_checks (env_store env) basename doc_type) st paras;
                  issues = fst st;
                  annotations = snd st;
                  issues = (if use_llm
                            then issues @ llm_findings env basename doc_type whole_text
                            else issues);
                  annotated_path = env_outputs_dir env @ ''/annotated_'' @ safe_name @ ''.docx'';
                  annotated = save_annotated_document env doc annotations save_annotated
                                annotated_path;
                  report_path = env_outputs_dir env @ ''/report_'' @ safe_name @ ''_'' @
                                timestamp @ ''.json''
              in Inr \<lparr>file_analyzed = basename, rep_doc_type = doc_type,
                       classification_confidence = confidence,
                       num_paragraphs = length paras,
                       issues_found = issues,
                       annotated_file = annotated,
                       report_file = (if env_can_save env report_path then Some report_path
                                      else None),
                       analyzed_at = timestamp\<rparr>))"

section \<open>Notions used in the statements\<close>



definition inline_note :: "ai_note \<Rightarrow> run" where
  "inline_note n =
     Text_Run ('' [AI NOTE #'' @ str_int (note_id n) @ '': '' @ note_text n @ '']'') False True"

definition para_position :: "document \<Rightarrow> int \<Rightarrow> nat" where
  "para_position doc i = nat (if i < 0 then int (length doc) + i else i)"

definition with_inline_notes :: "document \<Rightarrow> ai_note list \<Rightarrow> document" where
  "with_inline_notes doc ns =
     map (\<lambda>j. (doc ! j)\<lparr>par_runs := par_runs (doc ! j) @
            map inline_note (filter (\<lambda>n. para_position doc (note_para_index n) = j) ns)\<rparr>)
       [0..<length doc]"

text \<open>
  \<open>hash_stored store h\<close>: the content hash \<open>h\<close> is associated with some stored
  chunk.
\<close>

definition hash_stored :: "chroma \<Rightarrow> string \<Rightarrow> bool" where
  "hash_stored store h \<longleftrightarrow>
     (\<exists>c \<in> set (entries store).
        case chunk_metadata c of
          None \<Rightarrow> False
        | Some m \<Rightarrow> map_of m ''file_hash'' = Some (MStr h))"

text \<open>
  \<open>well_shaped r\<close>: each field of a query result, when present, holds at least the
  list for the one query text, as the store returns it.
\<close>

definition well_shaped :: "query_result \<Rightarrow> bool" where
  "well_shaped r \<longleftrightarrow>
     res_documents r \<noteq> Some [] \<and> res_metadatas r \<noteq> Some [] \<and> res_distances r \<noteq> Some []"

text \<open>
  \<open>query_distances store query_text n_results\<close>: the distances that the store answers
  the query with, one for each result, in the order of the results.
\<close>

definition query_distances :: "chroma \<Rightarrow> string \<Rightarrow> int \<Rightarrow> pyfloat option list" where
  "query_distances store query_text n_results =
     (case run_query store query_text n_results of
        Inl e \<Rightarrow> []
      | Inr results \<Rightarrow>
          (case first_list (res_distances results) of Inl e \<Rightarrow> [] | Inr dists \<Rightarrow> dists))"

text \<open>
  \<open>score_matches distance score\<close>: the score that belongs to a distance. There is no
  score when the distance is unusable. For a finite distance \<open>d\<close> the score is a double
  \<open>s\<close> between 0 and 1 that is the double nearest to a number \<open>m / 10000\<close> of four
  decimals, within \<open>2 ^ - 54\<close> of it (\<open>m\<close> is the integer nearest to \<open>10000 * s\<close>), and
  \<open>m / 10000\<close> is the clamped
  \<open>1 - d\<close> rounded to four decimals: it differs from the exact \<open>max 0 (min 1 (1 - d))\<close>
  by at most half a unit of the fourth decimal, and the rounding error \<open>2 ^ - 54\<close> of
  the float subtraction. The distance \<open>+inf\<close> has the score 0, the distance \<open>-inf\<close> the
  score 1, and a NaN distance the score 1 (\<open>min(1.0, nan)\<close> is \<open>1.0\<close>).
\<close>

definition score_matches :: "pyfloat option \<Rightarrow> pyfloat option \<Rightarrow> bool" where
  "score_matches distance score \<longleftrightarrow>
     (case distance of
        None \<Rightarrow> score = None
      | Some NaN \<Rightarrow> score = Some (Finite 1)
      | Some PosInf \<Rightarrow> score = Some (Finite 0)
      | Some NegInf \<Rightarrow> score = Some (Finite 1)
      | Some (Finite d) \<Rightarrow>
          (case score of
             Some (Finite s) \<Rightarrow>
               (let m = round_half_even (s * 10000)
                in 0 \<le> s \<and> s \<le> 1 \<and>
                   round_to_double (of_int m / 10000) = Finite s \<and>
                   \<bar>s - of_int m / 10000\<bar> \<le> 1 / 2 ^ 54 \<and>
                   \<bar>of_int m / 10000 - max 0 (min 1 (1 - d))\<bar> \<le> 1 / 20000 + 1 / 2 ^ 54)
           | _ \<Rightarrow> False))"

text \<open>
  \<open>matched text_lower keywords\<close>: how many of the keyword phrases occur in the text.
\<close>

definition matched :: "string \<Rightarrow> string list \<Rightarrow> nat" where
  "matched text_lower keywords = length (filter (\<lambda>kw. contains kw text_lower) keywords)"

text \<open>\<open>scored t table\<close>: the types of the table that have a phrase in the text, in the
  order of the table, each with its number of phrases in the text.\<close>

fun scored :: "string \<Rightarrow> (string \<times> string list) list \<Rightarrow> (string \<times> int) list" where
  "scored t [] = []"
| "scored t ((ty, kws) # rest) =
     (if matched t kws = 0 then scored t rest else (ty, int (matched t kws)) # scored t rest)"

text \<open>
  \<open>ordered_issues found\<close>: the list is the document-level findings (section
  \<open>Signatures\<close>), then paragraph-level findings whose paragraph indices ascend, then
  the findings of the language model (section \<open>LLM Analysis\<close>).
\<close>
definition ordered_issues :: "issue list \<Rightarrow> bool" where
  "ordered_issues found \<longleftrightarrow>
     (\<exists>doc_level para_level llm_level idxs.
        found = doc_level @ para_level @ llm_level \<and>
        (\<forall>i \<in> set doc_level. iss_section i = JStr ''Signatures'') \<and>
        map iss_section para_level = map (\<lambda>n. JStr (''Paragraph '' @ str_int n)) idxs \<and>
        sorted idxs \<and>
        (\<forall>i \<in> set llm_level. iss_section i = JStr ''LLM Analysis''))"

text \<open>
  \<open>appender f\<close>: the function on the two lists only appends to them, and what it
  appends does not depend on the lists.
\<close>

definition appender :: "(findings \<Rightarrow> findings) \<Rightarrow> bool" where
  "appender f \<longleftrightarrow> (\<forall>st. f st = (fst st @ fst (f ([], [])), snd st @ snd (f ([], []))))"

text \<open>\<open>issue_summary\<close>: the section, the message and the severity of a finding.\<close>

definition issue_summary :: "issue \<Rightarrow> json \<times> json \<times> json" where
  "issue_summary i = (iss_section i, iss_issue i, iss_severity i)"

text \<open>
  \<open>clock_in_range d\<close>: a date and time of the years 1000 to 9999, for which
  \<open>%Y\<close> gives four digits. \<open>report_path_of\<close> is the path of the report of a run.
\<close>

definition clock_in_range :: "datetime \<Rightarrow> bool" where
  "clock_in_range d \<longleftrightarrow>
     1000 \<le> dt_year d \<and> dt_year d \<le> 9999 \<and> 1 \<le> dt_month d \<and> dt_month d \<le> 12 \<and>
     1 \<le> dt_day d \<and> dt_day d \<le> 31 \<and> dt_hour d < 24 \<and> dt_minute d < 60 \<and> dt_second d < 60"

definition report_path_of :: "analysis_env \<Rightarrow> docx_file \<Rightarrow> string" where
  "report_path_of env file =
     env_outputs_dir env @ ''/report_'' @
     sanitize_name (splitext_root (basename_of (file_path file))) @ ''_'' @
     strftime_compact (env_now env) @ ''.json''"

section \<open>Example inputs\<close>

definition example_store :: chroma where
  "example_store =
     \<lparr>collection_available = True,
      run_query = (\<lambda>q n. Inl ExternalError),
      entries = [\<lparr>chunk_id = ''id-1'', chunk_document = ''ADGM Companies Regulations'',
                  chunk_metadata = Some [(''source_file'', MStr ''rules.pdf''),
                                         (''file_hash'', MStr ''9f2c'')]\<rparr>],
      get_fails = False, rejects = (\<lambda>c. False), create_fails = False\<rparr>"

definition unreadable_store :: chroma where
  "unreadable_store = example_store\<lparr>get_fails := True\<rparr>"

definition scored_store :: chroma where
  "scored_store =
     \<lparr>collection_available = True,
      run_query =
        (\<lambda>q n. Inr \<lparr>res_documents = Some [[Some ''a'', Some ''b'', Some ''c'']],
                     res_metadatas = Some [[None, None, None]],
                     res_distances =
                       Some [[Some (Finite (8997291335560777 / 18014398509481984)), None,
                              Some NaN]]\<rparr>),
      entries = [], get_fails = False, rejects = (\<lambda>c. False), create_fails = False\<rparr>"

definition example_source :: source_file where
  "example_source =
     \<lparr>fname = ''rules.pdf'', is_file = True, checksum = ''9f2c'',
      pages = [\<lparr>pg_no = 1, pg_text = ''ADGM Companies Regulations'', pg_para_index = None\<rparr>]\<rparr>"

definition example_env :: analysis_env where
  "example_env =
     \<lparr>env_store = example_store,
      env_classifier_llm = (\<lambda>p. Inl ExternalError),
      env_analysis_llm = (\<lambda>a p. Inr ''[x]''),
      env_json_loads = (\<lambda>s. if s = ''[x]'' then Some (JArr [JObj [(''issue'', JStr ''No term'')]])
                              else None),
      env_now = \<lparr>dt_year = 2025, dt_month = 8, dt_day = 9, dt_hour = 7, dt_minute = 5,
                 dt_second = 0\<rparr>,
      env_outputs_dir = ''/out'',
      env_can_save = (\<lambda>p. True)\<rparr>"

definition example_file :: docx_file where
  "example_file =
     \<lparr>file_path = ''/docs/nda v2.docx'',
      file_docx2txt = Inr (Some ''UK may''),
      file_document = Inr [\<lparr>par_style = None, par_runs = [Text_Run ''UK may'' False False]\<rparr>,
                           \<lparr>par_style = None, par_runs = []\<rparr>,
                           \<lparr>par_style = None, par_runs = [Text_Run ''could'' False False]\<rparr>]\<rparr>"

definition signed_file :: docx_file where
  "signed_file =
     \<lparr>file_path = ''/docs/signed.docx'',
      file_docx2txt = Inr (Some ''Signed: A. Smith''),
      file_document =
        Inr [\<lparr>par_style = None, par_runs = [Text_Run ''Signed: A. Smith'' False False]\<rparr>]\<rparr>"

definition morning :: datetime where
  "morning = \<lparr>dt_year = 2025, dt_month = 8, dt_day = 9, dt_hour = 7, dt_minute = 5,
              dt_second = 0\<rparr>"

definition evening :: datetime where
  "evening = \<lparr>dt_year = 2025, dt_month = 8, dt_day = 9, dt_hour = 19, dt_minute = 30,
              dt_second = 12\<rparr>"

section \<open>Facts about strings\<close>

lemma length_strip_le: "length (strip s) \<le> length s"
proof -
  have "length (strip s) \<le> length (dropWhile py_isspace s)"
    unfolding strip_def by (simp add: length_dropWhile_le order_trans [OF length_dropWhile_le])
  also have "\<dots> \<le> length s" by (rule length_dropWhile_le)
  finally show ?thesis .
qed

lemma length_py_slice_le:
  assumes "0 \<le> a" "a \<le> b"
  shows "int (length (py_slice s a b)) \<le> b - a"
  using assms by (auto simp: py_slice_def norm_index_def Let_def min_def)

section \<open>The chunker\<close>

lemma chunk_loop_runs_on:
  assumes "0 < overlap" "0 \<le> start" "start < int (length text)"
  shows "chunk_loop fuel text chunk_size overlap start = None"
  using assms
proof (induction fuel arbitrary: start)
  case 0
  then show ?case by (simp add: chunk_loop.simps)
next
  case (Suc fuel)
  let ?endp = "min (start + chunk_size) (int (length text))"
  let ?next = "max 0 (?endp - overlap)"
  have lt: "?next < int (length text)" using Suc.prems by auto
  have "chunk_loop fuel text chunk_size overlap ?next = None"
    using Suc.IH [of ?next] Suc.prems(1) lt by simp
  with lt Suc.prems show ?case
    by (simp add: chunk_loop.simps [of "Suc fuel"] Let_def)
qed

lemma chunk_emitted_0: "chunk_emitted 0 text chunk_size overlap start = []"
  by (simp add: chunk_emitted.simps [of 0] Let_def)

lemma chunk_emitted_bounded:
  assumes "0 \<le> chunk_size" "0 \<le> start"
  shows "\<forall>c \<in> set (chunk_emitted fuel text chunk_size overlap start).
           int (length c) \<le> chunk_size"
  using assms
proof (induction fuel arbitrary: start)
  case 0
  show ?case by (simp add: chunk_emitted_0)
next
  case (Suc fuel)
  let ?endp = "min (start + chunk_size) (int (length text))"
  let ?chunk = "strip (py_slice text start ?endp)"
  let ?next = "max 0 (?endp - overlap)"
  show ?case
  proof (cases "start < int (length text)")
    case False
    then show ?thesis by (simp add: chunk_emitted.simps [of "Suc fuel"])
  next
    case True
    have "int (length (py_slice text start ?endp)) \<le> ?endp - start"
      using Suc.prems True by (intro length_py_slice_le) auto
    then have bound: "int (length ?chunk) \<le> chunk_size"
      using length_strip_le [of "py_slice text start ?endp"] by linarith
    have rest: "\<forall>c \<in> set (chunk_emitted fuel text chunk_size overlap ?next).
                  int (length c) \<le> chunk_size"
      using Suc.IH [of ?next] Suc.prems(1) by simp
    show ?thesis
      using True bound rest
      by (auto simp: chunk_emitted.simps [of "Suc fuel"] Let_def)
  qed
qed

lemma chunk_emitted_single:
  "chunk_emitted fuel [c] 1200 200 0 = (if py_isspace c then [] else replicate fuel [c])"
proof (induction fuel)
  case 0
  show ?case by (simp add: chunk_emitted_0)
next
  case (Suc fuel)
  have "py_slice [c] 0 1 = [c]"
    by (simp add: py_slice_def norm_index_def)
  then show ?case using Suc
    by (simp add: chunk_emitted.simps [of "Suc fuel"] strip_def)
qed

text \<open>
  C1. On the one-character text \<open>a\<close>, with chunk size 1200 and overlap 200, the
  chunker never finishes: whatever the number of loop iterations allowed, the loop is
  still running, and by then it has yielded the chunk \<open>a\<close> once per iteration.
  (After the first window the end is the text length 1, the next start is
  \<open>max 0 (1 - 200) = 0\<close>, which is below the text length, so neither the \<open>while\<close>
  condition nor the \<open>break\<close> test ever ends the loop.)
\<close>

theorem chunk_text_generator_never_finishes:
  "(\<forall>fuel. chunk_text_generator fuel ''a'' 1200 200 = None) \<and>
   (\<forall>fuel. chunk_emitted fuel ''a'' 1200 200 0 = replicate fuel ''a'')"
proof -
  have "chunk_loop fuel ''a'' 1200 200 0 = None" for fuel
    by (rule chunk_loop_runs_on) simp_all
  moreover have "chunk_emitted fuel ''a'' 1200 200 0 = replicate fuel ''a''" for fuel
    by (simp add: chunk_emitted_single py_isspace_def)
  ultimately show ?thesis by (simp add: chunk_text_generator_def)
qed


section \<open>The annotator\<close>


lemma length_with_inline_notes [simp]: "length (with_inline_notes doc ns) = length doc"
  by (simp add: with_inline_notes_def)








section \<open>Floating point\<close>

lemma round_half_even_error: "\<bar>of_int (round_half_even y) - y\<bar> \<le> 1 / 2"
proof -
  define d where "d = y - of_int \<lfloor>y\<rfloor>"
  have d: "0 \<le> d" "d < 1" unfolding d_def by linarith+
  have y: "y = of_int \<lfloor>y\<rfloor> + d" unfolding d_def by simp
  consider "d < 1 / 2" | "1 / 2 < d" | "d = 1 / 2" by linarith
  then show ?thesis
  proof cases
    case 1
    then have "round_half_even y = \<lfloor>y\<rfloor>" by (simp add: round_half_even_def d_def Let_def)
    then have "of_int (round_half_even y) - y = - d" unfolding d_def by simp
    then show ?thesis using d 1 by simp
  next
    case 2
    then have "round_half_even y = \<lfloor>y\<rfloor> + 1" by (simp add: round_half_even_def d_def Let_def)
    then have "of_int (round_half_even y) - y = 1 - d" unfolding d_def by simp
    then show ?thesis using d 2 by simp
  next
    case 3
    then have "round_half_even y = \<lfloor>y\<rfloor> \<or> round_half_even y = \<lfloor>y\<rfloor> + 1"
      by (simp add: round_half_even_def d_def Let_def)
    then have "of_int (round_half_even y) - y = - d \<or> of_int (round_half_even y) - y = 1 - d"
      unfolding d_def by auto
    then show ?thesis using 3 by auto
  qed
qed

lemma round_half_even_ge:
  assumes "of_int N \<le> y"
  shows "N \<le> round_half_even y"
proof -
  have "N \<le> \<lfloor>y\<rfloor>" using assms by (simp add: le_floor_iff)
  then show ?thesis by (auto simp: round_half_even_def Let_def)
qed

lemma round_half_even_le:
  assumes "y \<le> of_int N"
  shows "round_half_even y \<le> N"
proof -
  have fN: "\<lfloor>y\<rfloor> \<le> N" using assms by (simp add: floor_le_iff)
  have up: "\<lfloor>y\<rfloor> + 1 \<le> N" if "0 < y - of_int \<lfloor>y\<rfloor>"
  proof -
    have "of_int \<lfloor>y\<rfloor> < y" using that by simp
    then have "(of_int \<lfloor>y\<rfloor> :: rat) < of_int N" using assms by linarith
    then show ?thesis by simp
  qed
  show ?thesis using fN up by (auto simp: round_half_even_def Let_def)
qed

lemma round_half_even_of_int: "round_half_even (of_int N) = N"
  using round_half_even_ge [of N "of_int N"] round_half_even_le [of "of_int N" N] by simp

lemma round_half_even_near:
  assumes "\<bar>y - of_int m\<bar> < 1 / 2"
  shows "round_half_even y = m"
proof -
  have up: "y - of_int m < 1 / 2" and low: "of_int m - y < 1 / 2"
    using assms unfolding abs_less_iff by simp_all
  show ?thesis
  proof (cases "of_int m \<le> y")
    case True
    have "y < of_int m + 1" using up by linarith
    with True have f: "\<lfloor>y\<rfloor> = m" by (intro floor_unique) simp_all
    show ?thesis using up by (simp add: round_half_even_def f)
  next
    case False
    have "of_int (m - 1) \<le> y" using low by simp
    moreover have "y < of_int (m - 1) + 1" using False by simp
    ultimately have f: "\<lfloor>y\<rfloor> = m - 1" by (rule floor_unique)
    have "1 / 2 < y - of_int (m - 1)" using low by simp
    then show ?thesis by (simp add: round_half_even_def f)
  qed
qed

lemma scaled_error:
  fixes m :: int and t x k :: rat
  assumes "0 < k" "t = x * k"
  shows "\<bar>of_int m / k - x\<bar> = \<bar>of_int m - t\<bar> / k"
proof -
  have "of_int m / k - x = (of_int m - t) / k"
    using assms by (simp add: field_simps)
  then show ?thesis using assms(1) by (simp add: abs_divide)
qed

lemma one_below_overflow: "1 < overflow_threshold" "0 < overflow_threshold"
proof -
  show "1 < overflow_threshold"
    unfolding overflow_threshold_def by (rule one_less_power) simp_all
  then show "0 < overflow_threshold" by simp
qed

lemma doublings_bound: "0 \<le> x \<Longrightarrow> x < 1 \<Longrightarrow> x * 2 ^ doublings fuel x < 2"
proof (induction fuel arbitrary: x)
  case 0
  then show ?case by simp
next
  case (Suc fuel)
  show ?case
  proof (cases "1 \<le> 2 * x")
    case True
    then show ?thesis using Suc.prems by simp
  next
    case False
    then have "2 * x * 2 ^ doublings fuel (2 * x) < 2"
      using Suc.prems by (intro Suc.IH) simp_all
    then show ?thesis using False by (simp add: mult.assoc mult.left_commute)
  qed
qed

lemma doublings_positive: "0 < doublings (Suc fuel) x"
  by simp

lemma halvings_bound: "1 \<le> x \<Longrightarrow> 1 \<le> x / 2 ^ halvings fuel x"
proof (induction fuel arbitrary: x)
  case 0
  then show ?case by simp
next
  case (Suc fuel)
  show ?case
  proof (cases "x < 2")
    case True
    then show ?thesis using Suc.prems by simp
  next
    case False
    then have "1 \<le> x / 2 / 2 ^ halvings fuel (x / 2)"
      by (intro Suc.IH) simp
    then show ?thesis using False by (simp add: field_simps)
  qed
qed

lemma fuel_1022: "(1022 :: nat) = Suc 1021" and fuel_1023: "(1023 :: nat) = Suc 1022"
  by simp_all

lemma powi_neg: "(2 :: rat) powi (- int k) = 1 / 2 ^ k"
  by (simp only: power_int_minus power_int_of_nat divide_inverse mult_1)

lemma round_to_double_finite:
  assumes "x \<noteq> 0" "float_exponent x = e"
    and "- overflow_threshold < of_int (round_half_even (x / 2 powi (e - 52))) * 2 powi (e - 52)"
    and "of_int (round_half_even (x / 2 powi (e - 52))) * 2 powi (e - 52) < overflow_threshold"
  shows "round_to_double x =
           Finite (of_int (round_half_even (x / 2 powi (e - 52))) * 2 powi (e - 52))"
  using assms by (simp add: round_to_double_def Let_def not_le)

lemma round_to_double_1: "round_to_double 1 = Finite 1"
proof -
  have "halvings 1023 (1 :: rat) = 0"
    using halvings.simps(2) [of 1022 "1 :: rat"] by simp
  then have e: "float_exponent 1 = 0" by (simp add: float_exponent_def)
  have q: "(2 :: rat) powi (0 - 52) = 1 / 2 ^ 52"
    using powi_neg [of 52] by simp
  have m: "round_half_even (1 / (1 / 2 ^ 52)) = 2 ^ 52"
    using round_half_even_of_int [of "2 ^ 52"] by simp
  have y: "of_int (round_half_even (1 / 2 powi (0 - 52))) * 2 powi (0 - 52) = (1 :: rat)"
    unfolding q m by simp
  show ?thesis
    using round_to_double_finite [of 1 0, OF _ e] one_below_overflow unfolding y by simp
qed

text \<open>On the unit interval rounding to a double stays there and errs by at most \<open>2 ^ - 54\<close>.\<close>

lemma round_to_double_open_unit:
  assumes "0 < x" "x < 1"
  shows "\<exists>n. 0 < n \<and>
           round_to_double x = Finite (of_int (round_half_even (x * 2 ^ (n + 52))) / 2 ^ (n + 52)) \<and>
           0 \<le> round_half_even (x * 2 ^ (n + 52)) \<and>
           round_half_even (x * 2 ^ (n + 52)) \<le> 2 ^ 53"
proof -
  define n where "n = doublings 1022 x"
  have npos: "0 < n" unfolding n_def fuel_1022 by (rule doublings_positive)
  have small: "x * 2 ^ n < 2" unfolding n_def using assms by (intro doublings_bound) simp_all
  have e: "float_exponent x = - int n" using assms by (simp add: float_exponent_def n_def)
  have q: "(2 :: rat) powi (- int n - 52) = 1 / 2 ^ (n + 52)"
    using powi_neg [of "n + 52"] by (simp add: algebra_simps)
  define t where "t = x * 2 ^ (n + 52)"
  define m where "m = round_half_even t"
  have t0: "of_int 0 \<le> t" unfolding t_def using assms by simp
  have "t = x * 2 ^ n * 2 ^ 52" unfolding t_def by (simp add: power_add)
  also have "\<dots> < 2 * 2 ^ 52" using small by simp
  finally have t1: "t \<le> of_int (2 ^ 53)" by simp
  have m0: "0 \<le> m" unfolding m_def using t0 by (rule round_half_even_ge)
  have m1: "m \<le> 2 ^ 53" unfolding m_def using t1 by (rule round_half_even_le)
  define y :: rat where "y = of_int m / 2 ^ (n + 52)"
  have y0: "0 \<le> y" unfolding y_def using m0 by simp
  have "(of_int m :: rat) \<le> of_int (2 ^ 53)" using m1 by (simp only: of_int_le_iff)
  then have "(of_int m :: rat) \<le> 2 ^ 53" by simp
  also have "(2 :: rat) ^ 53 \<le> 2 ^ (n + 52)" using npos by (intro power_increasing) simp_all
  finally have y1: "y \<le> 1" unfolding y_def by (simp add: divide_le_eq)
  have form: "of_int (round_half_even (x / 2 powi (- int n - 52))) * 2 powi (- int n - 52) = y"
    unfolding q y_def m_def t_def by simp
  have "round_to_double x = Finite y"
    using round_to_double_finite [of x "- int n", OF _ e] assms y0 y1 one_below_overflow
    unfolding form by simp
  then show ?thesis using npos m0 m1 unfolding y_def m_def t_def by blast
qed

lemma round_to_double_unit:
  assumes "0 \<le> x" "x \<le> 1"
  shows "\<exists>y. round_to_double x = Finite y \<and> 0 \<le> y \<and> y \<le> 1 \<and> \<bar>y - x\<bar> \<le> 1 / 2 ^ 54"
proof -
  consider "x = 0" | "x = 1" | "0 < x" "x < 1" using assms by fastforce
  then show ?thesis
  proof cases
    case 1
    then show ?thesis by (simp add: round_to_double_def)
  next
    case 2
    then show ?thesis using round_to_double_1 by simp
  next
    case 3
    then obtain n where n: "0 < n"
      "round_to_double x = Finite (of_int (round_half_even (x * 2 ^ (n + 52))) / 2 ^ (n + 52))"
      "0 \<le> round_half_even (x * 2 ^ (n + 52))" "round_half_even (x * 2 ^ (n + 52)) \<le> 2 ^ 53"
      using round_to_double_open_unit by blast
    define m where "m = round_half_even (x * 2 ^ (n + 52))"
    define y :: rat where "y = of_int m / 2 ^ (n + 52)"
    have y0: "0 \<le> y" unfolding y_def m_def using n(3) by simp
    have "(of_int m :: rat) \<le> of_int (2 ^ 53)" unfolding m_def using n(4) by (simp only: of_int_le_iff)
    then have "(of_int m :: rat) \<le> 2 ^ 53" by simp
    also have "(2 :: rat) ^ 53 \<le> 2 ^ (n + 52)" using n(1) by (intro power_increasing) simp_all
    finally have y1: "y \<le> 1" unfolding y_def by (simp add: divide_le_eq)
    have "\<bar>y - x\<bar> = \<bar>of_int m - x * 2 ^ (n + 52)\<bar> / 2 ^ (n + 52)"
      unfolding y_def by (rule scaled_error) simp_all
    also have "\<dots> \<le> (1 / 2) / 2 ^ (n + 52)"
      unfolding m_def using round_half_even_error [of "x * 2 ^ (n + 52)"]
      by (intro divide_right_mono) simp_all
    also have "\<dots> \<le> (1 / 2) / 2 ^ 53"
      using n(1) by (intro divide_left_mono power_increasing) simp_all
    finally have err: "\<bar>y - x\<bar> \<le> 1 / 2 ^ 54" by simp
    have "round_to_double x = Finite y" unfolding y_def m_def by (rule n(2))
    then show ?thesis using y0 y1 err by blast
  qed
qed

lemma round_to_double_ge_1:
  assumes "1 \<le> x"
  shows "round_to_double x = PosInf \<or> (\<exists>y. round_to_double x = Finite y \<and> 1 \<le> y)"
proof -
  define n where "n = halvings 1023 x"
  have big: "1 \<le> x / 2 ^ n" unfolding n_def using assms by (rule halvings_bound)
  have e: "float_exponent x = int n" using assms by (simp add: float_exponent_def n_def)
  define q :: rat where "q = 2 powi (int n - 52)"
  have qpos: "0 < q" unfolding q_def by simp
  have q: "q * 2 ^ 52 = 2 ^ n"
    unfolding q_def using power_int_add [of "2 :: rat" "int n - 52" 52] by simp
  define m where "m = round_half_even (x / q)"
  have "of_int (2 ^ 52) * q \<le> x"
    using big q by (simp add: field_simps)
  then have "of_int (2 ^ 52) \<le> x / q" using qpos by (simp add: le_divide_eq)
  then have "2 ^ 52 \<le> m" unfolding m_def by (rule round_half_even_ge)
  then have "(of_int (2 ^ 52) :: rat) \<le> of_int m" by (simp only: of_int_le_iff)
  then have "2 ^ 52 * q \<le> of_int m * q"
    using qpos by (intro mult_right_mono) simp_all
  moreover have "(1 :: rat) \<le> 2 ^ 52 * q" using q by (simp add: mult.commute)
  ultimately have y: "1 \<le> of_int m * q" by linarith
  have nz: "x \<noteq> 0" using assms by simp
  have "round_to_double x =
      (if overflow_threshold \<le> of_int m * q then PosInf
       else if of_int m * q \<le> - overflow_threshold then NegInf else Finite (of_int m * q))"
    using nz by (simp add: round_to_double_def e Let_def q_def m_def)
  moreover have "\<not> of_int m * q \<le> - overflow_threshold"
    using y one_below_overflow by linarith
  ultimately show ?thesis using y by auto
qed

lemma round_to_double_le_0:
  assumes "x \<le> 0"
  shows "round_to_double x = NegInf \<or> (\<exists>y. round_to_double x = Finite y \<and> y \<le> 0)"
proof (cases "x = 0")
  case True
  then show ?thesis by (simp add: round_to_double_def)
next
  case False
  define q :: rat where "q = 2 powi (float_exponent x - 52)"
  have qpos: "0 < q" unfolding q_def by simp
  define m where "m = round_half_even (x / q)"
  have "x / q \<le> of_int 0" using assms qpos by (simp add: divide_le_0_iff)
  then have "m \<le> 0" unfolding m_def by (rule round_half_even_le)
  then have y: "of_int m * q \<le> 0"
    using qpos by (simp add: mult_le_0_iff)
  have "round_to_double x =
      (if overflow_threshold \<le> of_int m * q then PosInf
       else if of_int m * q \<le> - overflow_threshold then NegInf else Finite (of_int m * q))"
    using False by (simp add: round_to_double_def Let_def q_def m_def)
  moreover have "\<not> overflow_threshold \<le> of_int m * q"
    using y one_below_overflow by linarith
  ultimately show ?thesis using y by auto
qed

text \<open>The clamped similarity of a finite distance, against exact arithmetic.\<close>

lemma similarity_finite:
  "\<exists>c. py_max (Finite 0) (py_min (Finite 1) (float_sub (Finite 1) (Finite d))) = Finite c \<and>
       0 \<le> c \<and> c \<le> 1 \<and> \<bar>c - max 0 (min 1 (1 - d))\<bar> \<le> 1 / 2 ^ 54"
proof -
  consider "1 - d \<le> 0" | "1 \<le> 1 - d" | "0 < 1 - d" "1 - d < 1" by linarith
  then show ?thesis
  proof cases
    case 1
    from round_to_double_le_0 [OF 1]
    have "py_max (Finite 0) (py_min (Finite 1) (float_sub (Finite 1) (Finite d))) = Finite 0"
      by (auto simp: py_min_def py_max_def)
    then show ?thesis using 1 by simp
  next
    case 2
    from round_to_double_ge_1 [OF 2]
    have "py_max (Finite 0) (py_min (Finite 1) (float_sub (Finite 1) (Finite d))) = Finite 1"
      by (auto simp: py_min_def py_max_def)
    then show ?thesis using 2 by simp
  next
    case 3
    then obtain y where y: "round_to_double (1 - d) = Finite y" "0 \<le> y" "y \<le> 1"
      "\<bar>y - (1 - d)\<bar> \<le> 1 / 2 ^ 54"
      using round_to_double_unit [of "1 - d"] by auto
    then have "py_max (Finite 0) (py_min (Finite 1) (float_sub (Finite 1) (Finite d))) = Finite y"
      by (auto simp: py_min_def py_max_def)
    moreover have "max 0 (min 1 (1 - d)) = 1 - d" using 3 by simp
    ultimately show ?thesis using y by auto
  qed
qed

lemma similarity_special:
  "py_max (Finite 0) (py_min (Finite 1) (float_sub (Finite 1) NaN)) = Finite 1"
  "py_max (Finite 0) (py_min (Finite 1) (float_sub (Finite 1) PosInf)) = Finite 0"
  "py_max (Finite 0) (py_min (Finite 1) (float_sub (Finite 1) NegInf)) = Finite 1"
  by (simp_all add: py_min_def py_max_def)

lemma float_round_unit:
  assumes "0 \<le> c" "c \<le> 1"
  shows "\<exists>s. float_round (Finite c) 4 = Finite s \<and> 0 \<le> s \<and> s \<le> 1 \<and>
           round_to_double (of_int (round_half_even (s * 10000)) / 10000) = Finite s \<and>
           \<bar>s - of_int (round_half_even (s * 10000)) / 10000\<bar> \<le> 1 / 2 ^ 54 \<and>
           \<bar>of_int (round_half_even (s * 10000)) / 10000 - c\<bar> \<le> 1 / 20000"
proof -
  define m where "m = round_half_even (c * 10 ^ 4)"
  have "of_int 0 \<le> c * 10 ^ 4" using assms by simp
  then have m0: "0 \<le> m" unfolding m_def by (rule round_half_even_ge)
  have "c * 10 ^ 4 \<le> of_int 10000" using assms by simp
  then have m1: "m \<le> 10000" unfolding m_def by (rule round_half_even_le)
  have "\<bar>of_int m / 10000 - c\<bar> = \<bar>of_int m - c * 10 ^ 4\<bar> / 10000"
    by (rule scaled_error) simp_all
  also have "\<dots> \<le> (1 / 2) / 10000"
    unfolding m_def using round_half_even_error [of "c * 10 ^ 4"]
    by (intro divide_right_mono) simp_all
  finally have err: "\<bar>of_int m / 10000 - c\<bar> \<le> 1 / 20000" by simp
  have "0 \<le> (of_int m / 10000 :: rat)" "(of_int m / 10000 :: rat) \<le> 1"
    using m0 m1 by simp_all
  then obtain s where s: "round_to_double (of_int m / 10000) = Finite s" "0 \<le> s" "s \<le> 1"
    "\<bar>s - of_int m / 10000\<bar> \<le> 1 / 2 ^ 54"
    using round_to_double_unit by blast
  have "s * 10000 - of_int m = (s - of_int m / 10000) * 10000"
    by (simp add: algebra_simps)
  then have "\<bar>s * 10000 - of_int m\<bar> = \<bar>s - of_int m / 10000\<bar> * 10000"
    by (simp only: abs_mult)
  also have "\<dots> \<le> 1 / 2 ^ 54 * 10000"
    using s(4) by (intro mult_right_mono) simp_all
  also have "\<dots> < 1 / 2" by simp
  finally have again: "round_half_even (s * 10000) = m" by (rule round_half_even_near)
  have value_s: "float_round (Finite c) 4 = Finite s"
    using s(1) by (simp add: float_round_def m_def)
  have nearest: "round_to_double (of_int (round_half_even (s * 10000)) / 10000) = Finite s"
    unfolding again by (rule s(1))
  have tight: "\<bar>s - of_int (round_half_even (s * 10000)) / 10000\<bar> \<le> 1 / 2 ^ 54"
    unfolding again by (rule s(4))
  have close: "\<bar>of_int (round_half_even (s * 10000)) / 10000 - c\<bar> \<le> 1 / 20000"
    unfolding again by (rule err)
  show ?thesis
    by (rule exI [of _ s]) (intro conjI value_s s(2) s(3) nearest tight close)
qed

lemma float_round_ends: "float_round (Finite 1) 4 = Finite 1" "float_round (Finite 0) 4 = Finite 0"
proof -
  have "round_half_even (1 * 10 ^ 4) = 10000"
    using round_half_even_of_int [of 10000] by simp
  then show "float_round (Finite 1) 4 = Finite 1"
    by (simp add: float_round_def round_to_double_1)
  have "round_half_even (0 * 10 ^ 4) = 0"
    using round_half_even_of_int [of 0] by simp
  then show "float_round (Finite 0) 4 = Finite 0"
    by (simp add: float_round_def round_to_double_def)
qed

lemma score_of_distance:
  "score_matches distance
     (case distance of
        None \<Rightarrow> None
      | Some x \<Rightarrow>
          Some (float_round (py_max (Finite 0) (py_min (Finite 1) (float_sub (Finite 1) x))) 4))"
proof (cases distance)
  case None
  then show ?thesis by (simp add: score_matches_def)
next
  case (Some x)
  show ?thesis
  proof (cases x)
    case (Finite d)
    obtain c where c: "py_max (Finite 0) (py_min (Finite 1) (float_sub (Finite 1) (Finite d))) = Finite c"
      "0 \<le> c" "c \<le> 1" "\<bar>c - max 0 (min 1 (1 - d))\<bar> \<le> 1 / 2 ^ 54"
      using similarity_finite by blast
    obtain s where s: "float_round (Finite c) 4 = Finite s" "0 \<le> s" "s \<le> 1"
      "round_to_double (of_int (round_half_even (s * 10000)) / 10000) = Finite s"
      "\<bar>s - of_int (round_half_even (s * 10000)) / 10000\<bar> \<le> 1 / 2 ^ 54"
      "\<bar>of_int (round_half_even (s * 10000)) / 10000 - c\<bar> \<le> 1 / 20000"
      using float_round_unit [OF c(2,3)] by blast
    have "\<bar>of_int (round_half_even (s * 10000)) / 10000 - max 0 (min 1 (1 - d))\<bar>
        \<le> 1 / 20000 + 1 / 2 ^ 54"
      using s(6) c(4) by linarith
    then show ?thesis
      unfolding score_matches_def Some Finite option.case pyfloat.case c(1) s(1) Let_def
      using s(2,3,4,5) by (intro conjI)
  next
    case PosInf
    then show ?thesis
      using Some by (simp add: score_matches_def similarity_special float_round_ends del: float_sub.simps)
  next
    case NegInf
    then show ?thesis
      using Some by (simp add: score_matches_def similarity_special float_round_ends del: float_sub.simps)
  next
    case NaN
    then show ?thesis
      using Some by (simp add: score_matches_def similarity_special float_round_ends del: float_sub.simps)
  qed
qed

text \<open>Evaluation in the upper half of the unit interval.\<close>

lemma round_to_double_upper_half:
  assumes "1 / 2 \<le> x" "x < 1"
  shows "round_to_double x = Finite (of_int (round_half_even (x * 2 ^ 53)) / 2 ^ 53)"
proof -
  have one: "doublings 1022 x = 1"
    using doublings.simps(2) [of 1021 x] assms by simp
  have e: "float_exponent x = - int 1" using assms by (simp add: float_exponent_def one)
  have q: "(2 :: rat) powi (- int 1 - 52) = 1 / 2 ^ 53"
    using powi_neg [of 53] by simp
  define m where "m = round_half_even (x * 2 ^ 53)"
  have "x * 2 ^ 53 \<le> of_int (2 ^ 53)" using assms by simp
  then have m1: "m \<le> 2 ^ 53" unfolding m_def by (rule round_half_even_le)
  have "of_int 0 \<le> x * 2 ^ 53" using assms by simp
  then have m0: "0 \<le> m" unfolding m_def by (rule round_half_even_ge)
  have "(of_int m :: rat) \<le> of_int (2 ^ 53)" using m1 by (simp only: of_int_le_iff)
  then have y1: "(of_int m / 2 ^ 53 :: rat) \<le> 1" by (simp add: divide_le_eq)
  have y0: "0 \<le> (of_int m / 2 ^ 53 :: rat)" using m0 by simp
  have form: "of_int (round_half_even (x / 2 powi (- int 1 - 52))) * 2 powi (- int 1 - 52) =
      (of_int m / 2 ^ 53 :: rat)"
    unfolding q m_def by simp
  have nz: "x \<noteq> 0" using assms by auto
  show ?thesis
    using round_to_double_finite [of x "- int 1", OF nz e] y0 y1 one_below_overflow
    unfolding form m_def by simp
qed

lemma example_score:
  "float_round (py_max (Finite 0) (py_min (Finite 1)
       (float_sub (Finite 1) (Finite (8997291335560777 / 18014398509481984))))) 4 =
     Finite (4509003946923341 / 9007199254740992)"
proof -
  have m: "round_half_even ((1 - 8997291335560777 / 18014398509481984) * 2 ^ 53) = 4508553586960604"
    by code_simp
  have sub: "round_to_double (1 - 8997291335560777 / 18014398509481984) =
      Finite (1127138396740151 / 2251799813685248)"
    using round_to_double_upper_half [of "1 - 8997291335560777 / 18014398509481984"]
    unfolding m by simp
  have sim: "py_max (Finite 0) (py_min (Finite 1)
       (float_sub (Finite 1) (Finite (8997291335560777 / 18014398509481984)))) =
      Finite (1127138396740151 / 2251799813685248)"
    unfolding float_sub.simps sub by (simp add: py_min_def py_max_def)
  have r: "round_half_even (1127138396740151 / 2251799813685248 * 10 ^ 4) = 5006"
    by code_simp
  have k: "round_half_even (of_int 5006 / 10 ^ 4 * 2 ^ 53) = 4509003946923341"
    by code_simp
  have "round_to_double (of_int 5006 / 10 ^ 4) = Finite (4509003946923341 / 9007199254740992)"
    using round_to_double_upper_half [of "of_int 5006 / 10 ^ 4"]
    unfolding k by simp
  then show ?thesis unfolding sim float_round_def pyfloat.case r .
qed


section \<open>Retrieval\<close>

lemma round_half_even_bounds:
  assumes "0 \<le> y" "y \<le> of_int N"
  shows "0 \<le> round_half_even y \<and> round_half_even y \<le> N"
proof -
  have f0: "0 \<le> \<lfloor>y\<rfloor>" using assms(1) by simp
  have fN: "\<lfloor>y\<rfloor> \<le> N" using assms(2) by (simp add: floor_le_iff)
  have up: "\<lfloor>y\<rfloor> + 1 \<le> N" if "0 < y - of_int \<lfloor>y\<rfloor>"
  proof -
    have "of_int \<lfloor>y\<rfloor> < y" using that by simp
    then have "(of_int \<lfloor>y\<rfloor> :: rat) < of_int N" using assms(2) by linarith
    then show ?thesis by simp
  qed
  show ?thesis
    using f0 fN up by (auto simp: round_half_even_def Let_def)
qed

lemma py_round_unit_interval:
  assumes "0 \<le> x" "x \<le> 1"
  shows "0 \<le> py_round x n \<and> py_round x n \<le> 1"
proof -
  have pos: "(0::rat) < 10 ^ n" by simp
  have "0 \<le> x * 10 ^ n" using assms(1) by simp
  moreover have "x * 10 ^ n \<le> of_int (10 ^ n)"
    using assms(2) mult_right_mono [of x 1 "10 ^ n"] by simp
  ultimately have b: "0 \<le> round_half_even (x * 10 ^ n) \<and> round_half_even (x * 10 ^ n) \<le> 10 ^ n"
    by (rule round_half_even_bounds)
  then have "(of_int (round_half_even (x * 10 ^ n)) :: rat) \<le> of_int (10 ^ n)"
    by (simp only: of_int_le_iff)
  then have "(of_int (round_half_even (x * 10 ^ n)) :: rat) \<le> 10 ^ n" by simp
  with b pos show ?thesis by (simp add: py_round_def divide_le_eq)
qed

lemma structured_item_score:
  "ev_score (structured_item d m distance) =
     (case distance of
        None \<Rightarrow> None
      | Some x \<Rightarrow>
          Some (float_round (py_max (Finite 0) (py_min (Finite 1) (float_sub (Finite 1) x))) 4))"
  by (simp add: structured_item_def split: option.splits)

lemma first_list_total:
  "field \<noteq> Some [] \<Longrightarrow> \<exists>xs. first_list field = Inr xs"
  by (cases field) (auto simp: first_list_def py_index_def neq_Nil_conv)

text \<open>
  C6. If the collection is not available or the query raises, retrieval returns the
  empty list, both in \<open>retrieve_relevant_sections\<close> and in the helper
  \<open>retrieve_evidence\<close> of the analysis. The helper returns a list in every case: an
  exception that \<open>retrieve_relevant_sections\<close> raises is caught and gives the empty
  list. And \<open>retrieve_relevant_sections\<close> itself returns a list whenever the store
  answers with a well-shaped result.
\<close>

theorem retrieval_returns_empty_on_failure:
  "(\<not> collection_available store \<or> (\<exists>e. run_query store query_text n_results = Inl e) \<longrightarrow>
      retrieve_relevant_sections store query_text n_results return_raw = Inr [] \<and>
      retrieve_evidence store query_text n_results = []) \<and>
   ((\<exists>e. retrieve_relevant_sections store query_text n_results False = Inl e) \<longrightarrow>
      retrieve_evidence store query_text n_results = []) \<and>
   ((\<forall>r. run_query store query_text n_results = Inr r \<longrightarrow> well_shaped r) \<longrightarrow>
      (\<exists>items. retrieve_relevant_sections store query_text n_results return_raw = Inr items))"
proof (intro conjI impI)
  assume fail: "\<not> collection_available store \<or> (\<exists>e. run_query store query_text n_results = Inl e)"
  then show "retrieve_relevant_sections store query_text n_results return_raw = Inr []"
    by (auto simp: retrieve_relevant_sections_def)
  from fail have "retrieve_relevant_sections store query_text n_results False = Inr []"
    by (auto simp: retrieve_relevant_sections_def)
  then show "retrieve_evidence store query_text n_results = []"
    by (simp add: retrieve_evidence_def)
next
  assume "\<exists>e. retrieve_relevant_sections store query_text n_results False = Inl e"
  then show "retrieve_evidence store query_text n_results = []"
    by (auto simp: retrieve_evidence_def)
next
  assume shaped: "\<forall>r. run_query store query_text n_results = Inr r \<longrightarrow> well_shaped r"
  show "\<exists>items. retrieve_relevant_sections store query_text n_results return_raw = Inr items"
  proof (cases "run_query store query_text n_results")
    case (Inl e)
    then show ?thesis by (simp add: retrieve_relevant_sections_def)
  next
    case (Inr r)
    with shaped have w: "well_shaped r" by simp
    obtain docs where d: "first_list (res_documents r) = Inr docs"
      using first_list_total [of "res_documents r"] w by (auto simp: well_shaped_def)
    obtain metas where m: "first_list (res_metadatas r) = Inr metas"
      using first_list_total [of "res_metadatas r"] w by (auto simp: well_shaped_def)
    obtain dists where s: "first_list (res_distances r) = Inr dists"
      using first_list_total [of "res_distances r"] w by (auto simp: well_shaped_def)
    show ?thesis using Inr d m s by (simp add: retrieve_relevant_sections_def)
  qed
qed

theorem retrieval_returns_empty_on_failure_witness:
  "retrieve_relevant_sections
     \<lparr>collection_available = True, run_query = (\<lambda>q n. Inl ExternalError), entries = [],
      get_fails = False, rejects = (\<lambda>c. False), create_fails = False\<rparr>
     ''signature block example'' 2 False = Inr [] \<and>
   retrieve_evidence
     \<lparr>collection_available = True, run_query = (\<lambda>q n. Inl ExternalError), entries = [],
      get_fails = False, rejects = (\<lambda>c. False), create_fails = False\<rparr>
     ''signature block example'' 2 = []"
  using retrieval_returns_empty_on_failure
    [of "\<lparr>collection_available = True, run_query = (\<lambda>q n. Inl ExternalError), entries = [],
          get_fails = False, rejects = (\<lambda>c. False), create_fails = False\<rparr>"
        "''signature block example''" 2 False]
  by simp

text \<open>
  C7. Structured retrieval returns at most one item for each distance of the store's
  answer, and the score of the \<open>k\<close>-th item belongs to the \<open>k\<close>-th distance: it is
  \<open>None\<close> when that distance is unusable, and otherwise a double in \<open>[0, 1]\<close>, namely
  \<open>1 - distance\<close> clamped to \<open>[0, 1]\<close> and rounded to 4 decimals, in float arithmetic
  (\<open>score_matches\<close> bounds it against the exact value; at a NaN distance the clamp
  \<open>max(0.0, min(1.0, nan))\<close> is 1).
\<close>

theorem retrieved_score_follows_distance:
  assumes "retrieve_relevant_sections store query_text n_results False = Inr items"
  shows "length items \<le> length (query_distances store query_text n_results) \<and>
         (\<forall>k < length items. \<exists>e.
            items ! k = Dict_Item e \<and>
            score_matches (query_distances store query_text n_results ! k) (ev_score e))"
proof (cases "collection_available store")
  case False
  with assms have "items = []" by (simp add: retrieve_relevant_sections_def)
  then show ?thesis by simp
next
  case True
  show ?thesis
  proof (cases "run_query store query_text n_results")
    case (Inl e)
    with assms True have "items = []" by (simp add: retrieve_relevant_sections_def)
    then show ?thesis by simp
  next
    case (Inr r)
    from assms True Inr obtain docs metas dists
      where dists: "first_list (res_distances r) = Inr dists"
        and items: "items = map (\<lambda>(d, m, distance). Dict_Item (structured_item d m distance))
                             (zip docs (zip metas dists))"
      by (auto simp: retrieve_relevant_sections_def split: sum.splits)
    have q: "query_distances store query_text n_results = dists"
      by (simp add: query_distances_def Inr dists)
    have len: "length items \<le> length dists" by (simp add: items)
    have "\<exists>e. items ! k = Dict_Item e \<and> score_matches (dists ! k) (ev_score e)"
      if "k < length items" for k
    proof -
      from that have k: "k < length docs" "k < length metas" "k < length dists"
        by (simp_all add: items)
      then have "items ! k = Dict_Item (structured_item (docs ! k) (metas ! k) (dists ! k))"
        by (simp add: items)
      moreover have "score_matches (dists ! k)
          (ev_score (structured_item (docs ! k) (metas ! k) (dists ! k)))"
        unfolding structured_item_score by (rule score_of_distance)
      ultimately show ?thesis by (intro exI conjI)
    qed
    then show ?thesis unfolding q using len by simp
  qed
qed

theorem retrieved_score_follows_distance_witness:
  "retrieve_relevant_sections scored_store ''q'' 3 False =
     Inr [Dict_Item \<lparr>ev_text = ''a'', ev_meta = [],
                     ev_score = Some (Finite (4509003946923341 / 9007199254740992))\<rparr>,
          Dict_Item \<lparr>ev_text = ''b'', ev_meta = [], ev_score = None\<rparr>,
          Dict_Item \<lparr>ev_text = ''c'', ev_meta = [], ev_score = Some (Finite 1)\<rparr>] \<and>
   query_distances scored_store ''q'' 3 =
     [Some (Finite (8997291335560777 / 18014398509481984)), None, Some NaN] \<and>
   score_matches (Some (Finite (8997291335560777 / 18014398509481984)))
     (Some (Finite (4509003946923341 / 9007199254740992))) \<and>
   score_matches None None \<and>
   score_matches (Some NaN) (Some (Finite 1))"
proof -
  have items: "retrieve_relevant_sections scored_store ''q'' 3 False =
     Inr [Dict_Item \<lparr>ev_text = ''a'', ev_meta = [],
                     ev_score = Some (Finite (4509003946923341 / 9007199254740992))\<rparr>,
          Dict_Item \<lparr>ev_text = ''b'', ev_meta = [], ev_score = None\<rparr>,
          Dict_Item \<lparr>ev_text = ''c'', ev_meta = [], ev_score = Some (Finite 1)\<rparr>]"
    by (simp add: retrieve_relevant_sections_def scored_store_def first_list_def py_index_def
        structured_item_def example_score similarity_special float_round_ends
        del: float_sub.simps)
  have dists: "query_distances scored_store ''q'' 3 =
     [Some (Finite (8997291335560777 / 18014398509481984)), None, Some NaN]"
    by (simp add: query_distances_def scored_store_def first_list_def py_index_def)
  note scores = retrieved_score_follows_distance [OF items, unfolded dists]
  have first: "score_matches (Some (Finite (8997291335560777 / 18014398509481984)))
     (Some (Finite (4509003946923341 / 9007199254740992)))"
    using scores [THEN conjunct2, rule_format, of 0] by simp
  have second: "score_matches None None"
    using scores [THEN conjunct2, rule_format, of 1] by simp
  have third: "score_matches (Some NaN) (Some (Finite 1))"
    using scores [THEN conjunct2, rule_format, of 2] by simp
  show ?thesis
    by (intro conjI items dists first second third)
qed

section \<open>Ingestion\<close>

lemma known_hash_is_collected:
  assumes "Some m \<in> set ms" "map_of m ''file_hash'' = Some (MStr h)" "h \<noteq> []"
  shows "MStr h \<in> set (ingested_hashes_of ms)"
  using assms
proof (induction ms rule: ingested_hashes_of.induct)
  case 1
  then show ?case by simp
next
  case (2 rest)
  then show ?case by simp
next
  case (3 m' rest)
  show ?case
  proof (cases "m' = m")
    case True
    then show ?thesis using 3 by auto
  next
    case False
    then have "Some m \<in> set rest" using "3.prems" by simp
    then show ?thesis
      using 3 by (auto split: option.splits)
  qed
qed

lemma hash_stored_is_collected:
  assumes "\<not> get_fails store" "hash_stored store h" "h \<noteq> []"
  shows "MStr h \<in> set (ingested_hashes_of (existing_metadatas store))"
proof -
  from assms(2) obtain c m where c: "c \<in> set (entries store)"
    and m: "chunk_metadata c = Some m" "map_of m ''file_hash'' = Some (MStr h)"
    by (auto simp: hash_stored_def split: option.splits)
  from c m(1) have "Some m \<in> set (existing_metadatas store)"
    using assms(1) by (force simp: existing_metadatas_def)
  then show ?thesis using m(2) assms(3) by (rule known_hash_is_collected)
qed

lemma ingest_files_all_skipped:
  assumes "\<forall>f \<in> set files. MStr (checksum f) \<in> set hashes"
  shows "ingest_files fuel uuid4 hashes files st = Some st"
  using assms by (induction files) (simp_all add: ingest_file_def)

text \<open>
  C3. Let the collection exist and its metadata be readable. A file whose non-empty
  content hash is associated with a stored chunk is skipped by the loop body: the state
  (store, identifiers drawn, chunk count) is returned as it was, whatever the fuel. And
  a run over a directory in which every file is such a file returns with the store
  unchanged and \<open>total_chunks = 0\<close>.
\<close>

theorem ingest_skips_file_with_stored_hash:
  assumes "collection_available store" "\<not> get_fails store"
    and "hash_stored store (checksum f)" "checksum f \<noteq> []"
  shows "ingest_file fuel uuid4 (ingested_hashes_of (existing_metadatas store)) f st = Some st \<and>
         ((\<forall>g \<in> set files. hash_stored store (checksum g) \<and> checksum g \<noteq> []) \<longrightarrow>
            ingest_sources fuel uuid4 (Some files) store =
              Some (Inr \<lparr>ing_store = store, ing_drawn = 0, ing_total_chunks = 0\<rparr>))"
proof (intro conjI impI)
  show "ingest_file fuel uuid4 (ingested_hashes_of (existing_metadatas store)) f st = Some st"
    using hash_stored_is_collected [OF assms(2,3,4)] by (simp add: ingest_file_def)
next
  assume "\<forall>g \<in> set files. hash_stored store (checksum g) \<and> checksum g \<noteq> []"
  then have "\<forall>g \<in> set files.
      MStr (checksum g) \<in> set (ingested_hashes_of (existing_metadatas store))"
    using hash_stored_is_collected [OF assms(2)] by blast
  from ingest_files_all_skipped [OF this]
  show "ingest_sources fuel uuid4 (Some files) store =
          Some (Inr \<lparr>ing_store = store, ing_drawn = 0, ing_total_chunks = 0\<rparr>)"
    using assms(1) by (simp add: ingest_sources_def get_or_create_collection_def)
qed

theorem ingest_skips_file_with_stored_hash_witness:
  "ingest_file 3 (\<lambda>n. ''fresh'') (ingested_hashes_of (existing_metadatas example_store))
     example_source \<lparr>ing_store = example_store, ing_drawn = 0, ing_total_chunks = 0\<rparr> =
     Some \<lparr>ing_store = example_store, ing_drawn = 0, ing_total_chunks = 0\<rparr> \<and>
   ingest_sources 3 (\<lambda>n. ''fresh'') (Some [example_source]) example_store =
     Some (Inr \<lparr>ing_store = example_store, ing_drawn = 0, ing_total_chunks = 0\<rparr>)"
proof -
  have a: "collection_available example_store" "\<not> get_fails example_store"
    by (simp_all add: example_store_def)
  have b: "hash_stored example_store (checksum example_source)"
    "checksum example_source \<noteq> []"
    by (simp_all add: hash_stored_def example_store_def example_source_def)
  from ingest_skips_file_with_stored_hash [OF a b, of 3 "\<lambda>n. ''fresh''" _ "[example_source]"]
  show ?thesis using b by simp
qed

text \<open>
  C3 as stated fails when \<open>collection.get\<close> raises: the handler leaves \<open>existing\<close>
  empty, so no hash is known although the store holds a chunk with the file's hash. The
  file is then not skipped: its text goes to the chunker, the first chunk that the
  chunker yields is added to the store under a fresh identifier, so that the store
  holds two chunks with the file's hash and \<open>total_chunks\<close> is 1, and, the chunker
  never finishing, the run does not return.
\<close>

theorem ingest_repeats_file_when_get_raises_counterexample:
  "hash_stored unreadable_store (checksum example_source) \<and>
   checksum example_source \<noteq> [] \<and>
   collection_available unreadable_store \<and>
   ingested_hashes_of (existing_metadatas unreadable_store) = [] \<and>
   (\<forall>fuel. ingest_file fuel (\<lambda>n. ''fresh'')
              (ingested_hashes_of (existing_metadatas unreadable_store)) example_source
              \<lparr>ing_store = unreadable_store, ing_drawn = 0, ing_total_chunks = 0\<rparr> = None) \<and>
   (\<forall>fuel. ingest_sources fuel (\<lambda>n. ''fresh'') (Some [example_source]) unreadable_store = None) \<and>
   chunk_emitted 1 ''ADGM Companies Regulations'' 1200 200 0 = [''ADGM Companies Regulations''] \<and>
   map (\<lambda>c. (chunk_document c, map_option (\<lambda>m. map_of m ''file_hash'') (chunk_metadata c)))
     (entries (ing_store
        (add_chunk (\<lambda>n. ''fresh'') example_source
           \<lparr>pg_no = 1, pg_text = ''ADGM Companies Regulations'', pg_para_index = None\<rparr> 0
           \<lparr>ing_store = unreadable_store, ing_drawn = 0, ing_total_chunks = 0\<rparr>
           (0, ''ADGM Companies Regulations'')))) =
     [(''ADGM Companies Regulations'', Some (Some (MStr ''9f2c''))),
      (''ADGM Companies Regulations'', Some (Some (MStr ''9f2c'')))] \<and>
   ing_total_chunks
     (add_chunk (\<lambda>n. ''fresh'') example_source
        \<lparr>pg_no = 1, pg_text = ''ADGM Companies Regulations'', pg_para_index = None\<rparr> 0
        \<lparr>ing_store = unreadable_store, ing_drawn = 0, ing_total_chunks = 0\<rparr>
        (0, ''ADGM Companies Regulations'')) = 1"
proof -
  let ?st = "\<lparr>ing_store = unreadable_store, ing_drawn = 0, ing_total_chunks = 0\<rparr>"
  let ?t = "''ADGM Companies Regulations''"
  have stored: "hash_stored unreadable_store (checksum example_source)"
    "checksum example_source \<noteq> []" "collection_available unreadable_store"
    by (simp_all add: hash_stored_def unreadable_store_def example_store_def example_source_def)
  have hashes: "ingested_hashes_of (existing_metadatas unreadable_store) = []"
    by (simp add: existing_metadatas_def unreadable_store_def)
  have pdf: "endswith (lower (fname example_source)) ''.pdf''"
    by code_simp
  have regular: "is_file example_source"
    "pages example_source = [\<lparr>pg_no = 1, pg_text = ?t, pg_para_index = None\<rparr>]"
    by (simp_all add: example_source_def)
  have segs: "enumerate 0 (segments_of ?t) = [(0, ?t)]"
    by (simp add: segments_of_def)
  have runs_on: "chunk_text_generator fuel ?t 1200 200 = None" for fuel
    unfolding chunk_text_generator_def by (rule chunk_loop_runs_on) simp_all
  have body: "ingest_file fuel (\<lambda>n. ''fresh'') [] example_source ?st = None" for fuel
    by (simp add: ingest_file_def pdf regular segs runs_on)
  have whole: "ingest_sources fuel (\<lambda>n. ''fresh'') (Some [example_source]) unreadable_store = None"
    for fuel
    by (simp add: ingest_sources_def get_or_create_collection_def stored(3) hashes body)
  have sl: "py_slice ?t 0 26 = ?t"
    by code_simp
  have st: "strip ?t = ?t"
    by code_simp
  have emitted: "chunk_emitted 1 ?t 1200 200 0 = [?t]"
    using chunk_emitted.simps [of "Suc 0" ?t 1200 200 0] chunk_emitted_0 [of ?t 1200 200 0]
    by (simp add: sl st)
  have added: "map (\<lambda>c. (chunk_document c, map_option (\<lambda>m. map_of m ''file_hash'') (chunk_metadata c)))
     (entries (ing_store
        (add_chunk (\<lambda>n. ''fresh'') example_source
           \<lparr>pg_no = 1, pg_text = ?t, pg_para_index = None\<rparr> 0 ?st (0, ?t)))) =
     [(?t, Some (Some (MStr ''9f2c''))), (?t, Some (Some (MStr ''9f2c'')))]"
    by (simp add: add_chunk_def Let_def unreadable_store_def example_store_def
        example_source_def)
  have count: "ing_total_chunks
     (add_chunk (\<lambda>n. ''fresh'') example_source
        \<lparr>pg_no = 1, pg_text = ?t, pg_para_index = None\<rparr> 0 ?st (0, ?t)) = 1"
    by (simp add: add_chunk_def Let_def unreadable_store_def example_store_def)
  show ?thesis
    unfolding hashes
    by (intro conjI allI stored hashes [unfolded hashes] body whole emitted added count refl)
qed

section \<open>The classifier\<close>

lemma startswith_set: "startswith s kw \<Longrightarrow> set kw \<subseteq> set s"
  unfolding startswith_def by (metis set_take_subset)

lemma contains_set: "contains kw s \<Longrightarrow> set kw \<subseteq> set s"
proof (induction s)
  case Nil
  then show ?case by simp
next
  case (Cons c cs)
  then show ?case using startswith_set [of "c # cs" kw] by auto
qed

lemma strip_nonempty:
  assumes "c \<in> set s" "\<not> py_isspace c"
  shows "strip s \<noteq> []"
proof -
  let ?t = "dropWhile py_isspace s"
  have t: "?t \<noteq> []" using assms by (auto simp: dropWhile_eq_Nil_conv)
  then have "\<not> py_isspace (hd ?t)" by (rule hd_dropWhile)
  moreover have "hd ?t \<in> set (rev ?t)" using t by simp
  ultimately have "dropWhile py_isspace (rev ?t) \<noteq> []"
    by (auto simp: dropWhile_eq_Nil_conv)
  then show ?thesis by (simp add: strip_def)
qed

lemma dict_set_new: "k \<notin> fst ` set d \<Longrightarrow> dict_set d k v = d @ [(k, v)]"
  by (induction d) auto

lemma dict_set_last: "k \<notin> fst ` set d \<Longrightarrow> dict_set (d @ [(k, n)]) k v = d @ [(k, v)]"
  by (induction d) auto

lemma dict_get_new: "k \<notin> fst ` set d \<Longrightarrow> dict_get d k dflt = dflt"
  by (force simp: dict_get_def split: option.splits dest: map_of_SomeD)

lemma dict_get_last: "k \<notin> fst ` set d \<Longrightarrow> dict_get (d @ [(k, n)]) k dflt = n"
  by (force simp: dict_get_def map_add_def split: option.splits dest: map_of_SomeD)

lemma dict_get_member:
  "distinct (map fst d) \<Longrightarrow> (k, v) \<in> set d \<Longrightarrow> dict_get d k dflt = v"
  by (simp add: dict_get_def)

lemma count_keywords_started:
  "k \<notin> fst ` set d \<Longrightarrow>
   count_keywords t k kws (d @ [(k, n)]) = d @ [(k, n + int (matched t kws))]"
proof (induction kws arbitrary: n)
  case Nil
  then show ?case by (simp add: matched_def)
next
  case (Cons kw kws)
  from Cons.IH [OF Cons.prems, of "n + 1"] Cons.IH [OF Cons.prems, of n] Cons.prems
  show ?case by (simp add: matched_def dict_set_last dict_get_last)
qed

lemma count_keywords_fresh:
  "k \<notin> fst ` set d \<Longrightarrow>
   count_keywords t k kws d =
     (if matched t kws = 0 then d else d @ [(k, int (matched t kws))])"
proof (induction kws)
  case Nil
  then show ?case by (simp add: matched_def)
next
  case (Cons kw kws)
  show ?case
  proof (cases "contains kw t")
    case True
    then show ?thesis
      using Cons.prems count_keywords_started [OF Cons.prems, of t kws 1]
      by (simp add: matched_def dict_set_new dict_get_new)
  next
    case False
    then show ?thesis using Cons by (simp add: matched_def)
  qed
qed

lemma score_types_scored:
  "distinct (map fst table) \<Longrightarrow> fst ` set d \<inter> fst ` set table = {} \<Longrightarrow>
   score_types t table d = d @ scored t table"
proof (induction table arbitrary: d)
  case Nil
  then show ?case by simp
next
  case (Cons a table)
  obtain ty kws where a: "a = (ty, kws)" by (cases a)
  have fresh: "ty \<notin> fst ` set d" using Cons.prems(2) a by auto
  have d: "distinct (map fst table)" using Cons.prems(1) by simp
  have ty: "ty \<notin> fst ` set table" using Cons.prems(1) a by (auto simp: image_iff)
  show ?case
  proof (cases "matched t kws = 0")
    case True
    have "fst ` set d \<inter> fst ` set table = {}" using Cons.prems(2) by auto
    from Cons.IH [OF d this] True a fresh show ?thesis
      by (simp add: count_keywords_fresh)
  next
    case False
    have "fst ` set (d @ [(ty, int (matched t kws))]) \<inter> fst ` set table = {}"
      using Cons.prems(2) ty by auto
    from Cons.IH [OF d this] False a fresh show ?thesis
      by (simp add: count_keywords_fresh)
  qed
qed

lemma scored_member:
  "(ty, c) \<in> set (scored t table) \<Longrightarrow>
   \<exists>kws. (ty, kws) \<in> set table \<and> c = int (matched t kws) \<and> matched t kws \<noteq> 0"
  by (induction t table rule: scored.induct) (auto split: if_splits)

lemma member_scored:
  "(ty, kws) \<in> set table \<Longrightarrow> matched t kws \<noteq> 0 \<Longrightarrow>
   (ty, int (matched t kws)) \<in> set (scored t table)"
  by (induction t table rule: scored.induct) (auto split: if_splits)

lemma max_by_count_greatest:
  "max_by_count b xs \<in> set (b # xs) \<and> (\<forall>x \<in> set (b # xs). snd x \<le> snd (max_by_count b xs))"
proof (induction xs arbitrary: b)
  case Nil
  then show ?case by simp
next
  case (Cons x xs)
  from Cons [of "if snd b < snd x then x else b"] show ?case by auto
qed

lemma matched_le_length: "matched t kws \<le> length kws"
  by (simp add: matched_def)

lemma matched_pos_iff: "matched t kws \<noteq> 0 \<longleftrightarrow> (\<exists>kw \<in> set kws. contains kw t)"
  by (auto simp: matched_def filter_empty_conv)

lemma keywords_distinct: "distinct (map fst DOC_TYPE_KEYWORDS)"
  by (simp add: DOC_TYPE_KEYWORDS_def)

lemma keywords_start_visible:
  "list_all (\<lambda>entry. list_all (\<lambda>kw. kw \<noteq> [] \<and> \<not> py_isspace (hd kw)) (snd entry))
     DOC_TYPE_KEYWORDS"
  by code_simp

lemma keywords_visible:
  assumes "(ty, kws) \<in> set DOC_TYPE_KEYWORDS" "kw \<in> set kws"
  shows "\<exists>c \<in> set kw. \<not> py_isspace c"
proof -
  have "kw \<noteq> [] \<and> \<not> py_isspace (hd kw)"
    using keywords_start_visible assms by (fastforce simp: list_all_iff)
  then show ?thesis using hd_in_set by blast
qed

lemma classify_by_keywords:
  assumes hit: "(ty, kws) \<in> set DOC_TYPE_KEYWORDS" "kw \<in> set kws" "contains kw (lower text)"
  shows "\<exists>best_kws.
           (fst (classify_doc_type (Inr (Some text)) provider use_fallback), best_kws)
             \<in> set DOC_TYPE_KEYWORDS \<and>
           (\<forall>other \<in> set DOC_TYPE_KEYWORDS.
              matched (lower text) (snd other) \<le> matched (lower text) best_kws) \<and>
           snd (classify_doc_type (Inr (Some text)) provider use_fallback) =
             py_round (min 1 (of_nat (matched (lower text) best_kws) / of_nat (length best_kws))) 2"
proof -
  let ?t = "lower text"
  let ?scores = "score_types ?t DOC_TYPE_KEYWORDS []"
  have scores: "?scores = scored ?t DOC_TYPE_KEYWORDS"
    using score_types_scored [OF keywords_distinct, of "[]" ?t] by simp
  obtain c where c: "c \<in> set kw" "\<not> py_isspace c"
    using keywords_visible [OF hit(1,2)] by blast
  have "c \<in> set ?t" using contains_set [OF hit(3)] c(1) by blast
  then obtain c' where "c' \<in> set text" "lower_char c' = c" by (auto simp: lower_def)
  then have "\<not> py_isspace c'" using c(2)
    by (auto simp: lower_char_def py_isspace_def split: option.splits)
  with \<open>c' \<in> set text\<close> have nonempty: "strip text \<noteq> []" by (rule strip_nonempty)
  have "matched ?t kws \<noteq> 0" using hit(2,3) matched_pos_iff by blast
  from member_scored [OF hit(1) this] have ne: "?scores \<noteq> []"
    unfolding scores by auto
  let ?best = "max_by_count (hd ?scores) (tl ?scores)"
  have best: "?best \<in> set ?scores" "\<forall>x \<in> set ?scores. snd x \<le> snd ?best"
    using max_by_count_greatest [of "hd ?scores" "tl ?scores"] ne by simp_all
  from best(1) obtain bk where bk: "(fst ?best, bk) \<in> set DOC_TYPE_KEYWORDS"
    "snd ?best = int (matched ?t bk)" "matched ?t bk \<noteq> 0"
    using scored_member [of "fst ?best" "snd ?best" ?t DOC_TYPE_KEYWORDS] scores by auto
  have get: "dict_get DOC_TYPE_KEYWORDS (fst ?best) [] = bk"
    using dict_get_member [OF keywords_distinct bk(1)] .
  have len: "length bk \<noteq> 0" using bk(3) matched_le_length [of ?t bk] by auto
  have greatest: "matched ?t (snd other) \<le> matched ?t bk" if "other \<in> set DOC_TYPE_KEYWORDS"
    for other
  proof (cases "matched ?t (snd other) = 0")
    case True
    then show ?thesis by simp
  next
    case False
    have "(fst other, snd other) \<in> set DOC_TYPE_KEYWORDS" using that by simp
    from member_scored [OF this False] best(2) scores bk(2)
    show ?thesis by force
  qed
  have result: "classify_doc_type (Inr (Some text)) provider use_fallback =
      (fst ?best, py_round (min 1 (of_int (snd ?best) / of_int (max 1 (int (length bk))))) 2)"
    using nonempty ne get by (simp add: classify_doc_type_def Let_def)
  have "1 \<le> int (length bk)" using len by (cases bk) simp_all
  then have "max 1 (int (length bk)) = int (length bk)" by simp
  with result bk(2) have
    "classify_doc_type (Inr (Some text)) provider use_fallback =
      (fst ?best, py_round (min 1 (of_nat (matched ?t bk) / of_nat (length bk))) 2)"
    by simp
  with bk(1) greatest show ?thesis by auto
qed

lemma classify_in_unit_interval:
  "0 \<le> snd (classify_doc_type read provider use_fallback) \<and>
   snd (classify_doc_type read provider use_fallback) \<le> 1"
proof -
  have r: "0 \<le> py_round (min 1 x) 2 \<and> py_round (min 1 x) 2 \<le> 1" if "0 \<le> x" for x
    using that py_round_unit_interval [of "min 1 x" 2] by simp
  have q: "(0::rat) \<le> of_int a / of_int (max 1 b)" if "0 \<le> a" for a b
    using that by simp
  have nonneg: "0 \<le> snd (max_by_count (hd (scored t table)) (tl (scored t table)))"
    if "scored t table \<noteq> []" for t table
  proof -
    have "max_by_count (hd (scored t table)) (tl (scored t table)) \<in> set (scored t table)"
      using max_by_count_greatest [of "hd (scored t table)" "tl (scored t table)"] that by simp
    then show ?thesis
      using scored_member [of _ _ t table] by (metis of_nat_0_le_iff prod.collapse)
  qed
  have scores: "score_types t DOC_TYPE_KEYWORDS [] = scored t DOC_TYPE_KEYWORDS" for t
    using score_types_scored [OF keywords_distinct, of "[]" t] by simp
  show ?thesis
    using r q nonneg
    by (auto simp: classify_doc_type_def Let_def scores split: sum.splits option.splits)
qed

text \<open>
  C5. The confidence that the classifier returns lies between 0 and 1. When the text
  read from the document contains a keyword phrase of some category, the type returned
  is a category of the table, none of the categories has more of its phrases in the
  text, and the confidence is \<open>min 1 (k / T)\<close> rounded to 2 decimals, \<open>k\<close> the
  number of that category's phrases in the lower-cased text and \<open>T\<close> the number of
  its phrases.
\<close>

theorem classifier_confidence:
  "0 \<le> snd (classify_doc_type read provider use_fallback) \<and>
   snd (classify_doc_type read provider use_fallback) \<le> 1 \<and>
   (\<forall>text. read = Inr (Some text) \<and>
        (\<exists>entry \<in> set DOC_TYPE_KEYWORDS. \<exists>kw \<in> set (snd entry). contains kw (lower text)) \<longrightarrow>
      (\<exists>best_kws.
         (fst (classify_doc_type read provider use_fallback), best_kws) \<in> set DOC_TYPE_KEYWORDS \<and>
         (\<forall>other \<in> set DOC_TYPE_KEYWORDS.
            matched (lower text) (snd other) \<le> matched (lower text) best_kws) \<and>
         snd (classify_doc_type read provider use_fallback) =
           py_round (min 1 (of_nat (matched (lower text) best_kws) / of_nat (length best_kws))) 2))"
proof (intro conjI allI impI)
  show "0 \<le> snd (classify_doc_type read provider use_fallback)"
    using classify_in_unit_interval by blast
  show "snd (classify_doc_type read provider use_fallback) \<le> 1"
    using classify_in_unit_interval by blast
next
  fix t
  assume a: "read = Inr (Some t) \<and>
        (\<exists>entry \<in> set DOC_TYPE_KEYWORDS. \<exists>kw \<in> set (snd entry). contains kw (lower t))"
  then obtain ty kws kw where "(ty, kws) \<in> set DOC_TYPE_KEYWORDS" "kw \<in> set kws"
    "contains kw (lower t)" by force
  from classify_by_keywords [OF this, of provider use_fallback] a
  show "\<exists>best_kws.
         (fst (classify_doc_type read provider use_fallback), best_kws) \<in> set DOC_TYPE_KEYWORDS \<and>
         (\<forall>other \<in> set DOC_TYPE_KEYWORDS.
            matched (lower t) (snd other) \<le> matched (lower t) best_kws) \<and>
         snd (classify_doc_type read provider use_fallback) =
           py_round (min 1 (of_nat (matched (lower t) best_kws) / of_nat (length best_kws))) 2"
    by simp
qed

theorem classifier_confidence_witness:
  "(\<exists>entry \<in> set DOC_TYPE_KEYWORDS. \<exists>kw \<in> set (snd entry).
      contains kw (lower ''Articles of Association (AoA)'')) \<and>
   classify_doc_type (Inr (Some ''Articles of Association (AoA)'')) (\<lambda>p. Inl ExternalError) True =
     (''Articles of Association'', 67 / 100) \<and>
   (\<exists>best_kws.
      (''Articles of Association'', best_kws) \<in> set DOC_TYPE_KEYWORDS \<and>
      (67 / 100 :: rat) =
        py_round (min 1 (of_nat (matched (lower ''Articles of Association (AoA)'') best_kws) /
                         of_nat (length best_kws))) 2)"
proof -
  have hit: "\<exists>entry \<in> set DOC_TYPE_KEYWORDS. \<exists>kw \<in> set (snd entry).
      contains kw (lower ''Articles of Association (AoA)'')"
    by code_simp
  have run: "classify_doc_type (Inr (Some ''Articles of Association (AoA)''))
      (\<lambda>p. Inl ExternalError) True = (''Articles of Association'', 67 / 100)"
    by code_simp
  from classifier_confidence
    [of "Inr (Some ''Articles of Association (AoA)'')" "\<lambda>p. Inl ExternalError" True] hit
  have "\<exists>best_kws.
      (fst (classify_doc_type (Inr (Some ''Articles of Association (AoA)''))
              (\<lambda>p. Inl ExternalError) True), best_kws) \<in> set DOC_TYPE_KEYWORDS \<and>
      snd (classify_doc_type (Inr (Some ''Articles of Association (AoA)''))
              (\<lambda>p. Inl ExternalError) True) =
        py_round (min 1 (of_nat (matched (lower ''Articles of Association (AoA)'') best_kws) /
                         of_nat (length best_kws))) 2"
    by blast
  with hit run show ?thesis by simp
qed

section \<open>The language-model augmenter\<close>

lemma llm_attempts_all_fail:
  assumes "\<forall>a \<in> set attempts. \<exists>e. llm_attempt loads (providers a) prompt = Inl e"
  shows "llm_attempts loads providers prompt attempts trace =
           ([], trace @ concat (map (\<lambda>a. [Call prompt, Sleep (1 + int a)]) attempts))"
  using assms
proof (induction attempts arbitrary: trace)
  case Nil
  then show ?case by simp
next
  case (Cons a attempts)
  then obtain e where "llm_attempt loads (providers a) prompt = Inl e" by auto
  then show ?case using Cons by simp
qed

lemma llm_attempts_first_return:
  assumes "\<forall>a \<in> set failed. \<exists>e. llm_attempt loads (providers a) prompt = Inl e"
    and "llm_attempt loads (providers k) prompt = Inr r"
  shows "llm_attempts loads providers prompt (failed @ k # rest) trace =
           (r, trace @ concat (map (\<lambda>a. [Call prompt, Sleep (1 + int a)]) failed) @ [Call prompt])"
  using assms(1)
proof (induction failed arbitrary: trace)
  case Nil
  then show ?case using assms(2) by simp
next
  case (Cons a failed)
  then obtain e where "llm_attempt loads (providers a) prompt = Inl e" by auto
  then show ?case using Cons by simp
qed

lemma upt_split_at:
  assumes "k < n"
  shows "[0..<n] = [0..<k] @ k # [Suc k..<n]"
proof -
  have "[0..<k + (n - k)] = [0..<k] @ [k..<k + (n - k)]"
    by (rule upt_add_eq_append) simp
  moreover have "k + (n - k) = n" using assms by simp
  moreover have "[k..<n] = k # [Suc k..<n]" using assms by (rule upt_conv_Cons)
  ultimately show ?thesis by simp
qed

lemma normalize_items_closed_form:
  "normalize_items parsed =
     map (\<lambda>d. [(''issue'', dict_get d ''issue'' (JStr [])),
               (''severity'', dict_get d ''severity'' (JStr ''Low'')),
               (''suggestion'', dict_get d ''suggestion'' (JStr []))])
       (concat (map (\<lambda>item. case item of
                               JObj d \<Rightarrow> if ''issue'' \<in> fst ` set d then [d] else []
                             | _ \<Rightarrow> []) parsed))"
  by (induction parsed rule: normalize_items.induct) simp_all

lemma llm_attempt_cases:
  "(get_llm_response provider prompt = [] \<longrightarrow> llm_attempt loads provider prompt = Inr []) \<and>
   ((\<exists>err. provider prompt = Inl err) \<longrightarrow> llm_attempt loads provider prompt = Inr []) \<and>
   (\<forall>e. llm_attempt loads provider prompt = Inl e \<longleftrightarrow>
          get_llm_response provider prompt \<noteq> [] \<and>
          safe_extract_json loads (get_llm_response provider prompt) = Inl e) \<and>
   (\<forall>parsed. get_llm_response provider prompt \<noteq> [] \<and>
        safe_extract_json loads (get_llm_response provider prompt) = Inr (JArr parsed) \<longrightarrow>
        llm_attempt loads provider prompt = Inr (normalize_items parsed))"
  by (auto simp: llm_attempt_def get_llm_response_def split: sum.splits json.splits)

lemma analyze_with_llm_exhausted:
  "(\<forall>a < nat (max_retries + 1).
        \<exists>e. llm_attempt loads (providers a) (analysis_prompt doc_text doc_type) = Inl e) \<longrightarrow>
      analyze_with_llm loads providers doc_text doc_type max_retries =
        ([], concat (map (\<lambda>a. [Call (analysis_prompt doc_text doc_type), Sleep (1 + int a)])
                       [0..<nat (max_retries + 1)]))"
proof
  assume "\<forall>a < nat (max_retries + 1).
        \<exists>e. llm_attempt loads (providers a) (analysis_prompt doc_text doc_type) = Inl e"
  then have "\<forall>a \<in> set [0..<nat (max_retries + 1)].
        \<exists>e. llm_attempt loads (providers a) (analysis_prompt doc_text doc_type) = Inl e"
    by simp
  from llm_attempts_all_fail [OF this, of "[]"]
  show "analyze_with_llm loads providers doc_text doc_type max_retries =
        ([], concat (map (\<lambda>a. [Call (analysis_prompt doc_text doc_type), Sleep (1 + int a)])
                       [0..<nat (max_retries + 1)]))"
    by (simp add: analyze_with_llm_def)
qed

lemma analyze_with_llm_first_return:
  "\<forall>k r. k < nat (max_retries + 1) \<and>
        (\<forall>a < k. \<exists>e. llm_attempt loads (providers a) (analysis_prompt doc_text doc_type) = Inl e) \<and>
        llm_attempt loads (providers k) (analysis_prompt doc_text doc_type) = Inr r \<longrightarrow>
      analyze_with_llm loads providers doc_text doc_type max_retries =
        (r, concat (map (\<lambda>a. [Call (analysis_prompt doc_text doc_type), Sleep (1 + int a)])
                      [0..<k]) @ [Call (analysis_prompt doc_text doc_type)])"
proof (intro allI impI)
  fix k r
  assume a: "k < nat (max_retries + 1) \<and>
        (\<forall>a < k. \<exists>e. llm_attempt loads (providers a) (analysis_prompt doc_text doc_type) = Inl e) \<and>
        llm_attempt loads (providers k) (analysis_prompt doc_text doc_type) = Inr r"
  then have failed: "\<forall>a \<in> set [0..<k].
        \<exists>e. llm_attempt loads (providers a) (analysis_prompt doc_text doc_type) = Inl e"
    by simp
  from a have split: "[0..<nat (max_retries + 1)] = [0..<k] @ k # [Suc k..<nat (max_retries + 1)]"
    by (intro upt_split_at) simp
  from a have ok: "llm_attempt loads (providers k) (analysis_prompt doc_text doc_type) = Inr r"
    by simp
  show "analyze_with_llm loads providers doc_text doc_type max_retries =
        (r, concat (map (\<lambda>a. [Call (analysis_prompt doc_text doc_type), Sleep (1 + int a)])
                      [0..<k]) @ [Call (analysis_prompt doc_text doc_type)])"
    unfolding analyze_with_llm_def split
    using llm_attempts_first_return [OF failed ok, of "[Suc k..<nat (max_retries + 1)]" "[]"]
    by simp
qed

lemma defaults_when_absent:
  "\<forall>d. (''severity'' \<notin> fst ` set d \<longrightarrow> dict_get d ''severity'' (JStr ''Low'') = JStr ''Low'') \<and>
        (''suggestion'' \<notin> fst ` set d \<longrightarrow> dict_get d ''suggestion'' (JStr []) = JStr [])"
  by (simp add: dict_get_new)

text \<open>
  C8 (amended). \<open>analyze_with_llm\<close> always returns a list, with the trace of its calls
  and sleeps. If every attempt \<open>0 .. max_retries\<close> raises, it returns the empty list
  after calling the model with the same prompt once per attempt and sleeping
  \<open>1 + attempt\<close> after each. If attempt \<open>k\<close> is the first that does not raise, its
  value is returned after the calls and sleeps of the attempts before it and one more
  call. An attempt raises exactly when the response is non-empty and no JSON can be
  extracted from it; an empty response, which is what a failure of the provider gives,
  makes the attempt return the empty list at once, without a retry. From a parsed array
  exactly the objects with an \<open>issue\<close> key are kept, in order, each reduced to its
  \<open>issue\<close>, its \<open>severity\<close> (\<open>Low\<close> when absent) and its \<open>suggestion\<close> (the
  empty string when absent).
\<close>

theorem analyze_with_llm_retries_parse_failures:
  "((\<forall>a < nat (max_retries + 1).
        \<exists>e. llm_attempt loads (providers a) (analysis_prompt doc_text doc_type) = Inl e) \<longrightarrow>
      analyze_with_llm loads providers doc_text doc_type max_retries =
        ([], concat (map (\<lambda>a. [Call (analysis_prompt doc_text doc_type), Sleep (1 + int a)])
                       [0..<nat (max_retries + 1)]))) \<and>
   (\<forall>k r. k < nat (max_retries + 1) \<and>
        (\<forall>a < k. \<exists>e. llm_attempt loads (providers a) (analysis_prompt doc_text doc_type) = Inl e) \<and>
        llm_attempt loads (providers k) (analysis_prompt doc_text doc_type) = Inr r \<longrightarrow>
      analyze_with_llm loads providers doc_text doc_type max_retries =
        (r, concat (map (\<lambda>a. [Call (analysis_prompt doc_text doc_type), Sleep (1 + int a)])
                      [0..<k]) @ [Call (analysis_prompt doc_text doc_type)])) \<and>
   (\<forall>provider prompt.
      (get_llm_response provider prompt = [] \<longrightarrow> llm_attempt loads provider prompt = Inr []) \<and>
      ((\<exists>err. provider prompt = Inl err) \<longrightarrow> llm_attempt loads provider prompt = Inr []) \<and>
      (\<forall>e. llm_attempt loads provider prompt = Inl e \<longleftrightarrow>
             get_llm_response provider prompt \<noteq> [] \<and>
             safe_extract_json loads (get_llm_response provider prompt) = Inl e) \<and>
      (\<forall>parsed. get_llm_response provider prompt \<noteq> [] \<and>
           safe_extract_json loads (get_llm_response provider prompt) = Inr (JArr parsed) \<longrightarrow>
           llm_attempt loads provider prompt = Inr (normalize_items parsed))) \<and>
   (\<forall>parsed. normalize_items parsed =
      map (\<lambda>d. [(''issue'', dict_get d ''issue'' (JStr [])),
                (''severity'', dict_get d ''severity'' (JStr ''Low'')),
                (''suggestion'', dict_get d ''suggestion'' (JStr []))])
        (concat (map (\<lambda>item. case item of
                                JObj d \<Rightarrow> if ''issue'' \<in> fst ` set d then [d] else []
                              | _ \<Rightarrow> []) parsed))) \<and>
   (\<forall>d. (''severity'' \<notin> fst ` set d \<longrightarrow> dict_get d ''severity'' (JStr ''Low'') = JStr ''Low'') \<and>
        (''suggestion'' \<notin> fst ` set d \<longrightarrow> dict_get d ''suggestion'' (JStr []) = JStr []))"
proof (rule conjI [OF analyze_with_llm_exhausted
      conjI [OF analyze_with_llm_first_return conjI [OF _ conjI [OF _ defaults_when_absent]]]])
  show "\<forall>provider prompt.
      (get_llm_response provider prompt = [] \<longrightarrow> llm_attempt loads provider prompt = Inr []) \<and>
      ((\<exists>err. provider prompt = Inl err) \<longrightarrow> llm_attempt loads provider prompt = Inr []) \<and>
      (\<forall>e. llm_attempt loads provider prompt = Inl e \<longleftrightarrow>
             get_llm_response provider prompt \<noteq> [] \<and>
             safe_extract_json loads (get_llm_response provider prompt) = Inl e) \<and>
      (\<forall>parsed. get_llm_response provider prompt \<noteq> [] \<and>
           safe_extract_json loads (get_llm_response provider prompt) = Inr (JArr parsed) \<longrightarrow>
           llm_attempt loads provider prompt = Inr (normalize_items parsed))"
    using llm_attempt_cases by (intro allI)
  show "\<forall>parsed. normalize_items parsed =
      map (\<lambda>d. [(''issue'', dict_get d ''issue'' (JStr [])),
                (''severity'', dict_get d ''severity'' (JStr ''Low'')),
                (''suggestion'', dict_get d ''suggestion'' (JStr []))])
        (concat (map (\<lambda>item. case item of
                                JObj d \<Rightarrow> if ''issue'' \<in> fst ` set d then [d] else []
                              | _ \<Rightarrow> []) parsed))"
    using normalize_items_closed_form by (intro allI)
qed

theorem analyze_with_llm_retries_parse_failures_witness:
  "llm_attempt (\<lambda>s. None) (\<lambda>p. Inr ''oops'') (analysis_prompt ''d'' ''t'') = Inl ValueError \<and>
   analyze_with_llm (\<lambda>s. None) (\<lambda>a p. Inr ''oops'') ''d'' ''t'' 2 =
     ([], [Call (analysis_prompt ''d'' ''t''), Sleep 1,
           Call (analysis_prompt ''d'' ''t''), Sleep 2,
           Call (analysis_prompt ''d'' ''t''), Sleep 3])"
proof -
  have parse: "safe_extract_json (\<lambda>s. None) ''oops'' = Inl ValueError"
    by code_simp
  then have fail: "llm_attempt (\<lambda>s. None) (\<lambda>p. Inr ''oops'') (analysis_prompt ''d'' ''t'') =
      Inl ValueError"
    by (simp add: llm_attempt_def get_llm_response_def)
  then have "\<forall>a < nat (2 + 1).
      \<exists>e. llm_attempt (\<lambda>s. None) ((\<lambda>a p. Inr ''oops'') a) (analysis_prompt ''d'' ''t'') = Inl e"
    by simp
  with analyze_with_llm_retries_parse_failures
    [of 2 "\<lambda>s. None" "\<lambda>a p. Inr ''oops''" "''d''" "''t''"]
  have "analyze_with_llm (\<lambda>s. None) (\<lambda>a p. Inr ''oops'') ''d'' ''t'' 2 =
        ([], concat (map (\<lambda>a. [Call (analysis_prompt ''d'' ''t''), Sleep (1 + int a)])
                       [0..<nat (2 + 1)]))"
    by blast
  then show ?thesis using fail by (simp add: upt_conv_Cons)
qed

text \<open>
  C8 as stated fails: with two retries allowed, a provider that fails on the first
  call and would answer with a parsable issue list on the second is called once, no
  sleep follows, and the empty list is returned.
\<close>

theorem analyze_with_llm_network_failure_counterexample:
  "analyze_with_llm
     (\<lambda>s. if s = ''[x]'' then Some (JArr [JObj [(''issue'', JStr ''late'')]]) else None)
     (\<lambda>a p. if a = 0 then Inl ExternalError else Inr ''[x]'') ''d'' ''t'' 2 =
     ([], [Call (analysis_prompt ''d'' ''t'')]) \<and>
   llm_attempt
     (\<lambda>s. if s = ''[x]'' then Some (JArr [JObj [(''issue'', JStr ''late'')]]) else None)
     (\<lambda>p. Inr ''[x]'') (analysis_prompt ''d'' ''t'') =
     Inr [[(''issue'', JStr ''late''), (''severity'', JStr ''Low''), (''suggestion'', JStr [])]]"
  by (simp add: analyze_with_llm_def llm_attempt_def get_llm_response_def safe_extract_json_def
      dict_get_def upt_conv_Cons)

section \<open>The order of the issues\<close>

lemma appender_comp:
  assumes "appender f" "appender g"
  shows "appender (\<lambda>st. g (f st))" and "fst (g (f ([], []))) = fst (f ([], [])) @ fst (g ([], []))"
proof -
  have f: "f st = (fst st @ fst (f ([], [])), snd st @ snd (f ([], [])))" for st
    using assms(1) unfolding appender_def by blast
  have g: "g st = (fst st @ fst (g ([], [])), snd st @ snd (g ([], [])))" for st
    using assms(2) unfolding appender_def by blast
  show "fst (g (f ([], []))) = fst (f ([], [])) @ fst (g ([], []))"
    by (subst g) simp
  show "appender (\<lambda>st. g (f st))"
    unfolding appender_def
  proof
    fix st
    have "g (f st) = (fst (f st) @ fst (g ([], [])), snd (f st) @ snd (g ([], [])))"
      by (rule g)
    moreover have "g (f ([], [])) = (fst (f ([], [])) @ fst (g ([], [])),
        snd (f ([], [])) @ snd (g ([], [])))"
      by (rule g)
    moreover have "fst (f st) = fst st @ fst (f ([], []))" "snd (f st) = snd st @ snd (f ([], []))"
      by (subst f, simp)+
    ultimately show "g (f st) = (fst st @ fst (g (f ([], []))), snd st @ snd (g (f ([], []))))"
      by simp
  qed
qed

lemma jurisdiction_check_appender:
  "appender (jurisdiction_check store b t idx lt)"
  "\<forall>i \<in> set (fst (jurisdiction_check store b t idx lt ([], []))).
     iss_section i = JStr (''Paragraph '' @ str_int idx)"
  by (simp_all add: appender_def jurisdiction_check_def split: option.splits)

lemma ambiguity_check_appender:
  "appender (ambiguity_check store b t idx lt)"
  "\<forall>i \<in> set (fst (ambiguity_check store b t idx lt ([], []))).
     iss_section i = JStr (''Paragraph '' @ str_int idx)"
  by (simp_all add: appender_def ambiguity_check_def)

lemma signatory_check_appender:
  "appender (signatory_check store b t idx lt)"
  "\<forall>i \<in> set (fst (signatory_check store b t idx lt ([], []))).
     iss_section i = JStr (''Paragraph '' @ str_int idx)"
  by (simp_all add: appender_def signatory_check_def)

lemma paragraph_checks_appender:
  "appender (\<lambda>st. paragraph_checks store b t st p)"
  "\<forall>i \<in> set (fst (paragraph_checks store b t ([], []) p)).
     iss_section i = JStr (''Paragraph '' @ str_int (fst p))"
proof -
  let ?j = "jurisdiction_check store b t (fst p) (lower (snd p))"
  let ?a = "ambiguity_check store b t (fst p) (lower (snd p))"
  let ?s = "signatory_check store b t (fst p) (lower (snd p))"
  have ja: "appender (\<lambda>st. ?a (?j st))"
    "fst (?a (?j ([], []))) = fst (?j ([], [])) @ fst (?a ([], []))"
    using appender_comp [OF jurisdiction_check_appender(1) ambiguity_check_appender(1)]
    by blast+
  have jas: "appender (\<lambda>st. ?s (?a (?j st)))"
    "fst (?s (?a (?j ([], [])))) = fst (?a (?j ([], []))) @ fst (?s ([], []))"
    using appender_comp [OF ja(1) signatory_check_appender(1)] by blast+
  have blank: "appender (\<lambda>st :: findings. st)" by (simp add: appender_def)
  have eq: "(\<lambda>st. paragraph_checks store b t st p) =
      (if strip (lower (snd p)) = [] then (\<lambda>st. st) else (\<lambda>st. ?s (?a (?j st))))"
    by (simp add: paragraph_checks_def Let_def fun_eq_iff)
  show "appender (\<lambda>st. paragraph_checks store b t st p)"
    unfolding eq using jas(1) blank by simp
  have "\<forall>i \<in> set (fst (?s (?a (?j ([], []))))). iss_section i = JStr (''Paragraph '' @ str_int (fst p))"
    unfolding jas(2) ja(2)
    using jurisdiction_check_appender(2) ambiguity_check_appender(2) signatory_check_appender(2)
    by (simp add: ball_Un)
  then show "\<forall>i \<in> set (fst (paragraph_checks store b t ([], []) p)).
     iss_section i = JStr (''Paragraph '' @ str_int (fst p))"
    by (simp add: paragraph_checks_def Let_def)
qed

lemma paragraph_checks_appends:
  "paragraph_checks store b t st p =
     (fst st @ fst (paragraph_checks store b t ([], []) p),
      snd st @ snd (paragraph_checks store b t ([], []) p))"
  using paragraph_checks_appender(1) [of store b t p] unfolding appender_def by blast

lemma foldl_paragraph_checks:
  "fst (foldl (paragraph_checks store b t) st paras) =
     fst st @ concat (map (\<lambda>p. fst (paragraph_checks store b t ([], []) p)) paras)"
proof (induction paras arbitrary: st)
  case Nil
  then show ?case by simp
next
  case (Cons p paras)
  show ?case
    using Cons [of "paragraph_checks store b t st p"]
      arg_cong [OF paragraph_checks_appends [of store b t st p], of fst]
    by simp
qed

lemma map_constant: "\<forall>x \<in> set xs. f x = v \<Longrightarrow> map f xs = replicate (length xs) v"
  by (induction xs) simp_all

lemma paragraph_checks_sections:
  "map iss_section (fst (paragraph_checks store b t ([], []) p)) =
     map (\<lambda>n. JStr (''Paragraph '' @ str_int n))
       (replicate (length (fst (paragraph_checks store b t ([], []) p))) (fst p))"
  using map_constant [OF paragraph_checks_appender(2) [of store b t p]] by simp

lemma signature_check_sections:
  "\<forall>i \<in> set (fst (signature_check store b t paras whole)). iss_section i = JStr ''Signatures''"
  by (simp add: signature_check_def Let_def)

lemma normalize_items_keys:
  "\<forall>li \<in> set (normalize_items parsed). map fst li = [''issue'', ''severity'', ''suggestion'']"
  by (induction parsed rule: normalize_items.induct) simp_all

lemma llm_attempt_keys:
  "llm_attempt loads provider prompt = Inr r \<Longrightarrow>
   \<forall>li \<in> set r. map fst li = [''issue'', ''severity'', ''suggestion'']"
  using normalize_items_keys
  by (auto simp: llm_attempt_def Let_def split: if_splits sum.splits json.splits)

lemma llm_attempts_keys:
  "\<forall>li \<in> set (fst (llm_attempts loads providers prompt attempts trace)).
     map fst li = [''issue'', ''severity'', ''suggestion'']"
proof (induction attempts arbitrary: trace)
  case Nil
  then show ?case by simp
next
  case (Cons a attempts)
  show ?case
  proof (cases "llm_attempt loads (providers a) prompt")
    case (Inl e)
    then show ?thesis using Cons by simp
  next
    case (Inr r)
    then show ?thesis using llm_attempt_keys [OF Inr] by simp
  qed
qed

lemma llm_issues_normalized_sections:
  assumes "\<forall>li \<in> set lis. map fst li = [''issue'', ''severity'', ''suggestion'']"
  shows "\<forall>i \<in> set (llm_issues_normalized b t lis). iss_section i = JStr ''LLM Analysis''"
  using assms
proof (induction lis)
  case Nil
  then show ?case by simp
next
  case (Cons li lis)
  have "''section'' \<notin> fst ` set li"
  proof -
    have "fst ` set li = set (map fst li)" by simp
    also have "\<dots> = set [''issue'', ''severity'', ''suggestion'']" using Cons.prems by simp
    finally show ?thesis by simp
  qed
  then have "dict_get li ''section'' (JStr ''LLM Analysis'') = JStr ''LLM Analysis''"
    by (rule dict_get_new)
  then show ?case using Cons by simp
qed

lemma sorted_paragraph_indices: "sorted (map fst (read_docx_paragraphs doc))"
proof -
  let ?all = "map (\<lambda>(i, para). (int i, strip (para_text para))) (enumerate 0 doc)"
  have "map fst ?all = map (int \<circ> fst) (enumerate 0 doc)"
    by (simp add: case_prod_beta comp_def)
  also have "\<dots> = map int (map fst (enumerate 0 doc))"
    by (simp only: map_map)
  also have "\<dots> = map int [0..<length doc]"
    by simp
  finally have "map fst ?all = map int [0..<length doc]" .
  moreover have "sorted (map int [0..<length doc])"
    by (simp add: sorted_map sorted_wrt_iff_nth_less)
  ultimately have "sorted (map fst ?all)" by simp
  then show ?thesis
    unfolding read_docx_paragraphs_def by (rule sorted_filter)
qed

lemma sorted_repeated_indices:
  "sorted (map fst paras) \<Longrightarrow>
   sorted (concat (map (\<lambda>p. replicate (k p) (fst p)) paras))"
proof (induction paras)
  case Nil
  then show ?case by simp
next
  case (Cons p paras)
  then have "\<forall>q \<in> set paras. fst p \<le> fst q" by simp
  then have "\<forall>y \<in> set (concat (map (\<lambda>p. replicate (k p) (fst p)) paras)). fst p \<le> y"
    by auto
  moreover have "sorted (replicate (k p) (fst p))" by (simp add: sorted_replicate)
  ultimately show ?case using Cons by (simp add: sorted_append)
qed

lemma llm_findings_sections:
  "\<forall>i \<in> set (llm_findings env b t whole). iss_section i = JStr ''LLM Analysis''"
proof -
  have "\<forall>li \<in> set (fst (analyze_with_llm l p e t 2)).
      map fst li = [''issue'', ''severity'', ''suggestion'']" for l p e
    unfolding analyze_with_llm_def by (rule llm_attempts_keys)
  from llm_issues_normalized_sections [OF this] show ?thesis
    by (simp add: llm_findings_def Let_def)
qed

lemma analyze_file_issues:
  assumes "analyze_file env file save_annotated use_llm = Inr rep"
  shows "\<exists>doc b t.
           file_document file = Inr doc \<and>
           issues_found rep =
             fst (signature_check (env_store env) b t (read_docx_paragraphs doc)
                    (join [CHR 0x0A] (map snd (read_docx_paragraphs doc)))) @
             concat (map (\<lambda>p. fst (paragraph_checks (env_store env) b t ([], []) p))
                       (read_docx_paragraphs doc)) @
             (if use_llm
              then llm_findings env b t (join [CHR 0x0A] (map snd (read_docx_paragraphs doc)))
              else [])"
proof (cases "file_document file")
  case (Inl e)
  then show ?thesis using assms by (simp add: analyze_file_def Let_def)
next
  case (Inr doc)
  let ?b = "basename_of (file_path file)"
  let ?t = "fst (classify_doc_type (file_docx2txt file) (env_classifier_llm env) True)"
  let ?paras = "read_docx_paragraphs doc"
  let ?whole = "join [CHR 0x0A] (map snd ?paras)"
  have "Inr rep = analyze_file env file save_annotated use_llm" using assms by simp
  then have "issues_found rep =
      fst (foldl (paragraph_checks (env_store env) ?b ?t)
             (signature_check (env_store env) ?b ?t ?paras ?whole) ?paras) @
      (if use_llm then llm_findings env ?b ?t ?whole else [])"
    using Inr by (simp add: analyze_file_def Let_def)
  then have found: "issues_found rep =
      fst (signature_check (env_store env) ?b ?t ?paras ?whole) @
      concat (map (\<lambda>p. fst (paragraph_checks (env_store env) ?b ?t ([], []) p)) ?paras) @
      (if use_llm then llm_findings env ?b ?t ?whole else [])"
    by (simp add: foldl_paragraph_checks)
  show ?thesis
    by (rule exI [of _ doc], rule exI [of _ ?b], rule exI [of _ ?t]) (intro conjI Inr found)
qed

text \<open>
  C2. Whenever \<open>analyze_file\<close> returns a report, its issues are ordered: the
  document-level findings, then the paragraph-level findings with ascending paragraph
  index, then the findings of the language model.
\<close>

theorem issues_are_ordered:
  assumes "analyze_file env file save_annotated use_llm = Inr rep"
  shows "ordered_issues (issues_found rep)"
proof -
  from analyze_file_issues [OF assms] obtain doc b t where
    found: "issues_found rep =
             fst (signature_check (env_store env) b t (read_docx_paragraphs doc)
                    (join [CHR 0x0A] (map snd (read_docx_paragraphs doc)))) @
             concat (map (\<lambda>p. fst (paragraph_checks (env_store env) b t ([], []) p))
                       (read_docx_paragraphs doc)) @
             (if use_llm
              then llm_findings env b t (join [CHR 0x0A] (map snd (read_docx_paragraphs doc)))
              else [])"
    by blast
  let ?paras = "read_docx_paragraphs doc"
  let ?doc_level = "fst (signature_check (env_store env) b t ?paras (join [CHR 0x0A] (map snd ?paras)))"
  let ?para_level = "concat (map (\<lambda>p. fst (paragraph_checks (env_store env) b t ([], []) p)) ?paras)"
  let ?llm_level = "if use_llm then llm_findings env b t (join [CHR 0x0A] (map snd ?paras)) else []"
  let ?k = "\<lambda>p. length (fst (paragraph_checks (env_store env) b t ([], []) p))"
  let ?idxs = "concat (map (\<lambda>p. replicate (?k p) (fst p)) ?paras)"
  have sections: "map iss_section ?para_level = map (\<lambda>n. JStr (''Paragraph '' @ str_int n)) ?idxs"
    by (simp add: map_concat comp_def paragraph_checks_sections)
  have sorted: "sorted ?idxs"
    using sorted_paragraph_indices by (rule sorted_repeated_indices)
  have d: "\<forall>i \<in> set ?doc_level. iss_section i = JStr ''Signatures''"
    by (rule signature_check_sections)
  have l: "\<forall>i \<in> set ?llm_level. iss_section i = JStr ''LLM Analysis''"
    using llm_findings_sections by (cases use_llm) simp_all
  show ?thesis
    unfolding ordered_issues_def
    by (rule exI [of _ ?doc_level], rule exI [of _ ?para_level], rule exI [of _ ?llm_level],
        rule exI [of _ ?idxs]) (intro conjI found d sections sorted l)
qed

section \<open>Evaluating the rule engine\<close>

lemma analyze_file_returns:
  "file_document file = Inr doc \<Longrightarrow> \<exists>rep. analyze_file env file save_annotated use_llm = Inr rep"
  by (simp add: analyze_file_def Let_def)

lemma analyze_file_issues_exact:
  assumes "file_document file = Inr doc"
    and "analyze_file env file save_annotated use_llm = Inr rep"
  shows "issues_found rep =
           fst (signature_check (env_store env) (basename_of (file_path file))
                  (fst (classify_doc_type (file_docx2txt file) (env_classifier_llm env) True))
                  (read_docx_paragraphs doc)
                  (join [CHR 0x0A] (map snd (read_docx_paragraphs doc)))) @
           concat (map (\<lambda>p. fst (paragraph_checks (env_store env) (basename_of (file_path file))
                     (fst (classify_doc_type (file_docx2txt file) (env_classifier_llm env) True))
                     ([], []) p))
                   (read_docx_paragraphs doc)) @
           (if use_llm
            then llm_findings env (basename_of (file_path file))
                   (fst (classify_doc_type (file_docx2txt file) (env_classifier_llm env) True))
                   (join [CHR 0x0A] (map snd (read_docx_paragraphs doc)))
            else [])"
proof -
  have "Inr rep = analyze_file env file save_annotated use_llm" using assms(2) by simp
  then have "issues_found rep =
      fst (foldl (paragraph_checks (env_store env) (basename_of (file_path file))
                    (fst (classify_doc_type (file_docx2txt file) (env_classifier_llm env) True)))
             (signature_check (env_store env) (basename_of (file_path file))
                  (fst (classify_doc_type (file_docx2txt file) (env_classifier_llm env) True))
                  (read_docx_paragraphs doc)
                  (join [CHR 0x0A] (map snd (read_docx_paragraphs doc))))
             (read_docx_paragraphs doc)) @
      (if use_llm
            then llm_findings env (basename_of (file_path file))
                   (fst (classify_doc_type (file_docx2txt file) (env_classifier_llm env) True))
                   (join [CHR 0x0A] (map snd (read_docx_paragraphs doc)))
            else [])"
    using assms(1) by (simp add: analyze_file_def Let_def)
  then show ?thesis by (simp add: foldl_paragraph_checks)
qed

lemma signature_check_summary:
  "map issue_summary (fst (signature_check store b t paras whole)) =
     (if re_search True SIGNATURE_REGEX (lower whole) = None
      then [(JStr ''Signatures'', JStr ''Possible missing signature block'', JStr ''High'')]
      else [])"
  by (simp add: signature_check_def issue_summary_def Let_def)

lemma jurisdiction_check_summary:
  "map issue_summary (fst (jurisdiction_check store b t idx lt ([], []))) =
     (case re_search True NON_ADGM_JURIS_REGEX lt of
        None \<Rightarrow> []
      | Some found \<Rightarrow>
          [(JStr (''Paragraph '' @ str_int idx),
            JStr (''Non-ADGM jurisdiction referenced: '' @ [CHR 0x27] @ found @ [CHR 0x27]),
            JStr ''High'')])"
  by (simp add: jurisdiction_check_def issue_summary_def split: option.splits)

lemma ambiguity_check_summary:
  "map issue_summary (fst (ambiguity_check store b t idx lt ([], []))) =
     (if re_search True AMBIGUOUS_REGEX lt \<noteq> None
      then [(JStr (''Paragraph '' @ str_int idx),
             JStr ''Potentially ambiguous/non-binding language (may, best endeavours, etc.)'',
             JStr ''Medium'')]
      else [])"
  by (simp add: ambiguity_check_def issue_summary_def)

lemma signatory_check_summary:
  "map issue_summary (fst (signatory_check store b t idx lt ([], []))) =
     (if re_search True SINGLE_SIGNATORY_REGEX lt \<noteq> None
      then [(JStr (''Paragraph '' @ str_int idx),
             JStr ''Only one authorized signatory specified'', JStr ''Medium'')]
      else [])"
  by (simp add: signatory_check_def issue_summary_def)

lemma paragraph_checks_split:
  assumes "strip (lower txt) \<noteq> []"
  shows "fst (paragraph_checks store b t ([], []) (idx, txt)) =
           fst (jurisdiction_check store b t idx (lower txt) ([], [])) @
           fst (ambiguity_check store b t idx (lower txt) ([], [])) @
           fst (signatory_check store b t idx (lower txt) ([], []))"
proof -
  let ?j = "jurisdiction_check store b t idx (lower txt)"
  let ?a = "ambiguity_check store b t idx (lower txt)"
  let ?s = "signatory_check store b t idx (lower txt)"
  have ja: "appender (\<lambda>st. ?a (?j st))"
    "fst (?a (?j ([], []))) = fst (?j ([], [])) @ fst (?a ([], []))"
    using appender_comp [OF jurisdiction_check_appender(1) ambiguity_check_appender(1)]
    by blast+
  have "fst (?s (?a (?j ([], [])))) = fst (?a (?j ([], []))) @ fst (?s ([], []))"
    using appender_comp [OF ja(1) signatory_check_appender(1)] by blast
  then show ?thesis using assms ja(2) by (simp add: paragraph_checks_def Let_def)
qed

lemma paragraph_checks_summary:
  assumes "strip (lower txt) \<noteq> []"
  shows "map issue_summary (fst (paragraph_checks store b t ([], []) (idx, txt))) =
           map issue_summary (fst (jurisdiction_check store b t idx (lower txt) ([], []))) @
           map issue_summary (fst (ambiguity_check store b t idx (lower txt) ([], []))) @
           map issue_summary (fst (signatory_check store b t idx (lower txt) ([], [])))"
  by (simp add: paragraph_checks_split [OF assms])

lemma scenario_text:
  "strip ''The parties may cooperate under UK law.'' = ''The parties may cooperate under UK law.''"
  "lower ''The parties may cooperate under UK law.'' = ''the parties may cooperate under uk law.''"
  "strip ''the parties may cooperate under uk law.'' = ''the parties may cooperate under uk law.''"
  by code_simp+

lemma scenario_signature:
  "re_search True SIGNATURE_REGEX ''the parties may cooperate under uk law.'' = None"
  by code_simp

lemma scenario_jurisdiction:
  "re_search True NON_ADGM_JURIS_REGEX ''the parties may cooperate under uk law.'' = Some ''uk''"
  by code_simp

lemma scenario_ambiguous:
  "re_search True AMBIGUOUS_REGEX ''the parties may cooperate under uk law.'' = Some ''may''"
  by code_simp

lemma scenario_signatory:
  "re_search True SINGLE_SIGNATORY_REGEX ''the parties may cooperate under uk law.'' = None"
  by code_simp


text \<open>
  C4. For a document whose single paragraph reads
  \<open>The parties may cooperate under UK law.\<close>, analysed without the language model,
  \<open>analyze_file\<close> returns a report with exactly three findings, in this order:
  the missing signature block (section \<open>Signatures\<close>, severity High), the non-ADGM
  jurisdiction in paragraph 0 (severity High) with the matched term \<open>uk\<close> quoted in
  the message, and the ambiguous language in paragraph 0 (severity Medium); whatever
  the store, the classifier's outcome, the file name and the clock are.
\<close>

theorem uk_law_scenario_three_findings:
  "\<exists>rep. analyze_file env
           \<lparr>file_path = path, file_docx2txt = read,
            file_document =
              Inr [\<lparr>par_style = style,
                    par_runs = [Text_Run ''The parties may cooperate under UK law.'' bold
                                  highlight]\<rparr>]\<rparr>
           save_annotated False = Inr rep \<and>
         map issue_summary (issues_found rep) =
           [(JStr ''Signatures'', JStr ''Possible missing signature block'', JStr ''High''),
            (JStr ''Paragraph 0'',
             JStr (''Non-ADGM jurisdiction referenced: '' @ [CHR 0x27] @ ''uk'' @ [CHR 0x27]),
             JStr ''High''),
            (JStr ''Paragraph 0'',
             JStr ''Potentially ambiguous/non-binding language (may, best endeavours, etc.)'',
             JStr ''Medium'')]"
proof -
  let ?doc = "[\<lparr>par_style = style,
                 par_runs = [Text_Run ''The parties may cooperate under UK law.'' bold
                               highlight]\<rparr>]"
  let ?file = "\<lparr>file_path = path, file_docx2txt = read, file_document = Inr ?doc\<rparr>"
  have doc: "file_document ?file = Inr ?doc" by simp
  obtain rep where run: "analyze_file env ?file save_annotated False = Inr rep"
    using analyze_file_returns [OF doc, of env save_annotated False] by (elim exE)
  have paras: "read_docx_paragraphs ?doc = [(0, ''The parties may cooperate under UK law.'')]"
    by (simp add: read_docx_paragraphs_def para_text_def scenario_text)
  have nonblank: "strip (lower ''The parties may cooperate under UK law.'') \<noteq> []"
    by (simp add: scenario_text)
  have zero: "str_int 0 = ''0''" by (simp add: str_int_def digit_char_def)
  have summary: "map issue_summary (issues_found rep) =
           [(JStr ''Signatures'', JStr ''Possible missing signature block'', JStr ''High''),
            (JStr ''Paragraph 0'',
             JStr (''Non-ADGM jurisdiction referenced: '' @ [CHR 0x27] @ ''uk'' @ [CHR 0x27]),
             JStr ''High''),
            (JStr ''Paragraph 0'',
             JStr ''Potentially ambiguous/non-binding language (may, best endeavours, etc.)'',
             JStr ''Medium'')]"
    unfolding analyze_file_issues_exact [OF doc run] paras
    by (simp add: signature_check_summary paragraph_checks_summary [OF nonblank]
        jurisdiction_check_summary ambiguity_check_summary signatory_check_summary
        scenario_text scenario_signature scenario_jurisdiction scenario_ambiguous
        scenario_signatory zero)
  show ?thesis
    by (rule exI [of _ rep]) (rule conjI [OF run summary])
qed

lemma example_texts:
  "read_docx_paragraphs
     [\<lparr>par_style = None, par_runs = [Text_Run ''UK may'' False False]\<rparr>,
      \<lparr>par_style = None, par_runs = []\<rparr>,
      \<lparr>par_style = None, par_runs = [Text_Run ''could'' False False]\<rparr>] =
     [(0, ''UK may''), (2, ''could'')]"
  "lower ''UK may'' = ''uk may''"
  "lower ''could'' = ''could''"
  "strip ''uk may'' = ''uk may''"
  "strip ''could'' = ''could''"
  by code_simp+

lemma example_matches:
  "re_search True SIGNATURE_REGEX (lower (join [CHR 0x0A] [''UK may'', ''could''])) = None"
  "re_search True NON_ADGM_JURIS_REGEX ''uk may'' = Some ''uk''"
  "re_search True AMBIGUOUS_REGEX ''uk may'' = Some ''may''"
  "re_search True SINGLE_SIGNATORY_REGEX ''uk may'' = None"
  "re_search True NON_ADGM_JURIS_REGEX ''could'' = None"
  "re_search True AMBIGUOUS_REGEX ''could'' = Some ''could''"
  "re_search True SINGLE_SIGNATORY_REGEX ''could'' = None"
  by code_simp+

lemma example_llm_findings:
  "map issue_summary (llm_findings example_env b t whole) =
     [(JStr ''LLM Analysis'', JStr ''No term'', JStr ''Low'')]"
  by (simp add: llm_findings_def Let_def example_env_def analyze_with_llm_def llm_attempt_def
      get_llm_response_def safe_extract_json_def dict_get_def upt_conv_Cons issue_summary_def)

lemma section_of_summary: "map iss_section xs = map fst (map issue_summary xs)"
  by (simp add: issue_summary_def comp_def)

theorem issues_are_ordered_witness:
  "\<exists>rep. analyze_file example_env example_file True True = Inr rep \<and>
         map iss_section (issues_found rep) =
           [JStr ''Signatures'', JStr ''Paragraph 0'', JStr ''Paragraph 0'', JStr ''Paragraph 2'',
            JStr ''LLM Analysis''] \<and>
         ordered_issues (issues_found rep)"
proof -
  let ?doc = "[\<lparr>par_style = None, par_runs = [Text_Run ''UK may'' False False]\<rparr>,
               \<lparr>par_style = None, par_runs = []\<rparr>,
               \<lparr>par_style = None, par_runs = [Text_Run ''could'' False False]\<rparr>]"
  have doc: "file_document example_file = Inr ?doc" by (simp add: example_file_def)
  obtain rep where run: "analyze_file example_env example_file True True = Inr rep"
    using analyze_file_returns [OF doc, of example_env True True] by (elim exE)
  have n1: "strip (lower ''UK may'') \<noteq> []" and n2: "strip (lower ''could'') \<noteq> []"
    by (simp_all add: example_texts)
  have nums: "str_int 0 = ''0''" "str_int 2 = ''2''"
    by (simp_all add: str_int_def digit_char_def)
  have "map issue_summary (issues_found rep) =
      [(JStr ''Signatures'', JStr ''Possible missing signature block'', JStr ''High''),
       (JStr ''Paragraph 0'',
        JStr (''Non-ADGM jurisdiction referenced: '' @ [CHR 0x27] @ ''uk'' @ [CHR 0x27]),
        JStr ''High''),
       (JStr ''Paragraph 0'',
        JStr ''Potentially ambiguous/non-binding language (may, best endeavours, etc.)'',
        JStr ''Medium''),
       (JStr ''Paragraph 2'',
        JStr ''Potentially ambiguous/non-binding language (may, best endeavours, etc.)'',
        JStr ''Medium''),
       (JStr ''LLM Analysis'', JStr ''No term'', JStr ''Low'')]"
    unfolding analyze_file_issues_exact [OF doc run] example_texts(1)
    by (simp add: signature_check_summary paragraph_checks_summary [OF n1]
        paragraph_checks_summary [OF n2]
        jurisdiction_check_summary ambiguity_check_summary signatory_check_summary
        example_texts example_matches example_llm_findings nums del: join.simps)
  then have sections: "map iss_section (issues_found rep) =
           [JStr ''Signatures'', JStr ''Paragraph 0'', JStr ''Paragraph 0'', JStr ''Paragraph 2'',
            JStr ''LLM Analysis'']"
    by (simp add: section_of_summary)
  show ?thesis
    by (rule exI [of _ rep]) (intro conjI run sections issues_are_ordered [OF run])
qed

section \<open>File names\<close>

lemma digit_char_inj:
  assumes "a < 10" "b < 10" "digit_char a = digit_char b"
  shows "a = b"
proof -
  have "distinct ''0123456789''" by simp
  moreover have "a < length ''0123456789''" "b < length ''0123456789''" using assms by simp_all
  ultimately show ?thesis using assms(3) unfolding digit_char_def
    by (simp only: nth_eq_iff_index_eq)
qed

lemma digits_small: "n < 10 \<Longrightarrow> digits n = [digit_char n]"
  by (subst digits.simps) simp

lemma digits_large: "10 \<le> n \<Longrightarrow> digits n = digits (n div 10) @ [digit_char (n mod 10)]"
  by (subst digits.simps) simp

lemma digit_zero: "digit_char 0 = CHR ''0''"
  by (simp add: digit_char_def)

lemma pad2:
  assumes "n < 100"
  shows "pad 2 n = [digit_char (n div 10), digit_char (n mod 10)]"
proof (cases "n < 10")
  case True
  then show ?thesis by (simp add: pad_def digits_small digit_zero del: digits.simps)
next
  case False
  then have "n div 10 < 10" "10 \<le> n" using assms by simp_all
  then show ?thesis by (simp add: pad_def digits_small digits_large del: digits.simps)
qed

lemma pad4:
  assumes "1000 \<le> n" "n < 10000"
  shows "pad 4 n = [digit_char (n div 1000), digit_char (n div 100 mod 10),
                    digit_char (n div 10 mod 10), digit_char (n mod 10)]"
proof -
  have a: "10 \<le> n" "10 \<le> n div 10" "10 \<le> n div 10 div 10" "n div 10 div 10 div 10 < 10"
    using assms by simp_all
  have "digits n = [digit_char (n div 10 div 10 div 10), digit_char (n div 10 div 10 mod 10),
                    digit_char (n div 10 mod 10), digit_char (n mod 10)]"
    using a by (simp add: digits_small digits_large del: digits.simps)
  moreover have "n div 10 div 10 div 10 = n div 1000" "n div 10 div 10 = n div 100"
    by (simp_all add: div_mult2_eq [symmetric])
  ultimately show ?thesis by (simp add: pad_def del: digits.simps)
qed

lemma div_mod_10_eq: "(x::nat) div 10 = y div 10 \<Longrightarrow> x mod 10 = y mod 10 \<Longrightarrow> x = y"
  by (metis div_mult_mod_eq)

lemma pad2_inj:
  assumes "n < 100" "m < 100" "pad 2 n = pad 2 m"
  shows "n = m"
proof -
  from assms have "digit_char (n div 10) = digit_char (m div 10)"
    "digit_char (n mod 10) = digit_char (m mod 10)"
    by (simp_all add: pad2)
  moreover have "n div 10 < 10" "m div 10 < 10" "n mod 10 < 10" "m mod 10 < 10"
    using assms by simp_all
  ultimately have "n div 10 = m div 10" "n mod 10 = m mod 10"
    by (auto intro: digit_char_inj)
  then show ?thesis by (rule div_mod_10_eq)
qed

lemma pad4_inj:
  assumes "1000 \<le> n" "n < 10000" "1000 \<le> m" "m < 10000" "pad 4 n = pad 4 m"
  shows "n = m"
proof -
  from assms have "digit_char (n div 1000) = digit_char (m div 1000)"
    "digit_char (n div 100 mod 10) = digit_char (m div 100 mod 10)"
    "digit_char (n div 10 mod 10) = digit_char (m div 10 mod 10)"
    "digit_char (n mod 10) = digit_char (m mod 10)"
    by (simp_all add: pad4)
  moreover have "n div 1000 < 10" "m div 1000 < 10" using assms by simp_all
  ultimately have e: "n div 1000 = m div 1000" "n div 100 mod 10 = m div 100 mod 10"
    "n div 10 mod 10 = m div 10 mod 10" "n mod 10 = m mod 10"
    by (auto intro: digit_char_inj)
  have "n div 100 div 10 = m div 100 div 10" using e(1) by (simp add: div_mult2_eq [symmetric])
  then have "n div 100 = m div 100" using e(2) by (rule div_mod_10_eq)
  then have "n div 10 div 10 = m div 10 div 10" by (simp add: div_mult2_eq [symmetric])
  then have "n div 10 = m div 10" using e(3) by (rule div_mod_10_eq)
  then show ?thesis using e(4) by (rule div_mod_10_eq)
qed

lemma length_pad2: "n < 100 \<Longrightarrow> length (pad 2 n) = 2"
  by (simp add: pad2)

lemma length_pad4: "1000 \<le> n \<Longrightarrow> n < 10000 \<Longrightarrow> length (pad 4 n) = 4"
  by (simp add: pad4)

lemma strftime_compact_inj:
  assumes "clock_in_range d" "clock_in_range e" "strftime_compact d = strftime_compact e"
  shows "d = e"
proof -
  have d: "1000 \<le> dt_year d" "dt_year d < 10000" "dt_month d < 100" "dt_day d < 100"
    "dt_hour d < 100" "dt_minute d < 100" "dt_second d < 100"
    using assms(1) by (simp_all add: clock_in_range_def)
  have e: "1000 \<le> dt_year e" "dt_year e < 10000" "dt_month e < 100" "dt_day e < 100"
    "dt_hour e < 100" "dt_minute e < 100" "dt_second e < 100"
    using assms(2) by (simp_all add: clock_in_range_def)
  from assms(3) have "pad 4 (dt_year d) = pad 4 (dt_year e) \<and>
      pad 2 (dt_month d) = pad 2 (dt_month e) \<and> pad 2 (dt_day d) = pad 2 (dt_day e) \<and>
      pad 2 (dt_hour d) = pad 2 (dt_hour e) \<and> pad 2 (dt_minute d) = pad 2 (dt_minute e) \<and>
      pad 2 (dt_second d) = pad 2 (dt_second e)"
    unfolding strftime_compact_def
    by (simp add: pad2 pad4 d e)
  then have "dt_year d = dt_year e" "dt_month d = dt_month e" "dt_day d = dt_day e"
    "dt_hour d = dt_hour e" "dt_minute d = dt_minute e" "dt_second d = dt_second e"
    using d e by (auto intro: pad4_inj pad2_inj)
  then show ?thesis by simp
qed

lemma sanitize_name_replaces:
  "sanitize_name n = take 120 (map (\<lambda>c. if c \<in> set safe_chars then c else CHR ''_'') n)"
  by (cases "length n \<le> 120") (simp_all add: sanitize_name_def py_slice_def norm_index_def)

lemma underscore_safe: "CHR ''_'' \<in> set safe_chars"
  by (simp add: safe_chars_def)

lemma sanitize_name_safe: "set (sanitize_name n) \<subseteq> set safe_chars"
proof
  fix c
  assume "c \<in> set (sanitize_name n)"
  then have "c \<in> set (map (\<lambda>c. if c \<in> set safe_chars then c else CHR ''_'') n)"
    unfolding sanitize_name_replaces by (rule in_set_takeD)
  then obtain c' where "c = (if c' \<in> set safe_chars then c' else CHR ''_'')"
    by (auto simp only: set_map image_iff)
  then show "c \<in> set safe_chars"
    using underscore_safe by (cases "c' \<in> set safe_chars") simp_all
qed

lemma length_sanitize_name: "length (sanitize_name n) = min 120 (length n)"
  by (simp add: sanitize_name_replaces min.commute)

lemma analyze_file_paths:
  assumes "file_document file = Inr doc"
    and "analyze_file env file save_annotated use_llm = Inr rep"
  shows "report_file rep =
           (if env_can_save env (report_path_of env file) then Some (report_path_of env file)
            else None)"
    and "annotated_file rep =
           save_annotated_document env doc
             (snd (foldl (paragraph_checks (env_store env) (basename_of (file_path file))
                       (fst (classify_doc_type (file_docx2txt file) (env_classifier_llm env) True)))
                     (signature_check (env_store env) (basename_of (file_path file))
                       (fst (classify_doc_type (file_docx2txt file) (env_classifier_llm env) True))
                       (read_docx_paragraphs doc)
                       (join [CHR 0x0A] (map snd (read_docx_paragraphs doc))))
                     (read_docx_paragraphs doc)))
             save_annotated
             (env_outputs_dir env @ ''/annotated_'' @
              sanitize_name (splitext_root (basename_of (file_path file))) @ ''.docx'')"
proof -
  have r: "Inr rep = analyze_file env file save_annotated use_llm" using assms(2) by simp
  from r show "report_file rep =
           (if env_can_save env (report_path_of env file) then Some (report_path_of env file)
            else None)"
    using assms(1) by (simp add: analyze_file_def Let_def report_path_of_def)
  from r show "annotated_file rep =
           save_annotated_document env doc
             (snd (foldl (paragraph_checks (env_store env) (basename_of (file_path file))
                       (fst (classify_doc_type (file_docx2txt file) (env_classifier_llm env) True)))
                     (signature_check (env_store env) (basename_of (file_path file))
                       (fst (classify_doc_type (file_docx2txt file) (env_classifier_llm env) True))
                       (read_docx_paragraphs doc)
                       (join [CHR 0x0A] (map snd (read_docx_paragraphs doc))))
                     (read_docx_paragraphs doc)))
             save_annotated
             (env_outputs_dir env @ ''/annotated_'' @
              sanitize_name (splitext_root (basename_of (file_path file))) @ ''.docx'')"
    using assms(1) by (simp add: analyze_file_def Let_def)
qed

lemma report_path_determined:
  assumes "analyze_file env file save_annotated use_llm = Inr rep" "report_file rep = Some p"
  shows "p = report_path_of env file"
proof (cases "file_document file")
  case (Inl e)
  then show ?thesis using assms(1) by (simp add: analyze_file_def Let_def)
next
  case (Inr doc)
  from analyze_file_paths(1) [OF Inr assms(1)] assms(2) show ?thesis
    by (simp split: if_splits)
qed

lemma report_paths_differ:
  assumes "env_outputs_dir env' = env_outputs_dir env"
    and "clock_in_range (env_now env)" "clock_in_range (env_now env')"
    and "env_now env \<noteq> env_now env'"
  shows "report_path_of env file \<noteq> report_path_of env' file"
proof
  assume "report_path_of env file = report_path_of env' file"
  then have "strftime_compact (env_now env) = strftime_compact (env_now env')"
    using assms(1) by (simp add: report_path_of_def)
  from strftime_compact_inj [OF assms(2,3) this] assms(4) show False by simp
qed


text \<open>
  C9 (amended). Sanitizing replaces every character outside \<open>[A-Za-z0-9_.-]\<close> by an
  underscore and keeps at most 120 characters, so the result has only characters of
  that class. The path at which a run saves its report is the output directory,
  \<open>/report_\<close>, the sanitized base name of the source without its extension, an
  underscore, the UTC time of the run as \<open>YYYYmmddTHHMMSSZ\<close> and \<open>.json\<close>. Two runs
  on the same file into the same directory, at different times (to the second, years
  1000 to 9999), save their reports at different paths.
\<close>

theorem report_name_sanitized_and_timestamped:
  "sanitize_name n = take 120 (map (\<lambda>c. if c \<in> set safe_chars then c else CHR ''_'') n) \<and>
   set (sanitize_name n) \<subseteq> set safe_chars \<and>
   length (sanitize_name n) = min 120 (length n) \<and>
   (\<forall>rep p. analyze_file env file save_annotated use_llm = Inr rep \<and> report_file rep = Some p \<longrightarrow>
      p = env_outputs_dir env @ ''/report_'' @
          sanitize_name (splitext_root (basename_of (file_path file))) @ ''_'' @
          strftime_compact (env_now env) @ ''.json'') \<and>
   (\<forall>env' save_annotated' use_llm' rep rep' p p'.
      analyze_file env file save_annotated use_llm = Inr rep \<and>
      analyze_file env' file save_annotated' use_llm' = Inr rep' \<and>
      report_file rep = Some p \<and> report_file rep' = Some p' \<and>
      env_outputs_dir env' = env_outputs_dir env \<and>
      clock_in_range (env_now env) \<and> clock_in_range (env_now env') \<and>
      env_now env \<noteq> env_now env' \<longrightarrow>
      p \<noteq> p')"
proof (intro conjI allI impI)
  show "sanitize_name n = take 120 (map (\<lambda>c. if c \<in> set safe_chars then c else CHR ''_'') n)"
    by (rule sanitize_name_replaces)
  show "set (sanitize_name n) \<subseteq> set safe_chars"
    by (rule sanitize_name_safe)
  show "length (sanitize_name n) = min 120 (length n)"
    by (rule length_sanitize_name)
next
  fix rep p
  assume "analyze_file env file save_annotated use_llm = Inr rep \<and> report_file rep = Some p"
  then have "p = report_path_of env file"
    using report_path_determined by blast
  then show "p = env_outputs_dir env @ ''/report_'' @
          sanitize_name (splitext_root (basename_of (file_path file))) @ ''_'' @
          strftime_compact (env_now env) @ ''.json''"
    by (simp only: report_path_of_def)
next
  fix env' save_annotated' use_llm' rep rep' p p'
  assume a: "analyze_file env file save_annotated use_llm = Inr rep \<and>
      analyze_file env' file save_annotated' use_llm' = Inr rep' \<and>
      report_file rep = Some p \<and> report_file rep' = Some p' \<and>
      env_outputs_dir env' = env_outputs_dir env \<and>
      clock_in_range (env_now env) \<and> clock_in_range (env_now env') \<and>
      env_now env \<noteq> env_now env'"
  then have "p = report_path_of env file" "p' = report_path_of env' file"
    using report_path_determined by blast+
  moreover have "report_path_of env file \<noteq> report_path_of env' file"
    using a by (intro report_paths_differ) simp_all
  ultimately show "p \<noteq> p'" by simp
qed

lemma signed_file_facts:
  "read_docx_paragraphs
     [\<lparr>par_style = None, par_runs = [Text_Run ''Signed: A. Smith'' False False]\<rparr>] =
     [(0, ''Signed: A. Smith'')]"
  "lower ''Signed: A. Smith'' = ''signed: a. smith''"
  "strip ''signed: a. smith'' = ''signed: a. smith''"
  "re_search True SIGNATURE_REGEX ''signed: a. smith'' = Some ''signed:''"
  "re_search True NON_ADGM_JURIS_REGEX ''signed: a. smith'' = None"
  "re_search True AMBIGUOUS_REGEX ''signed: a. smith'' = None"
  "re_search True SINGLE_SIGNATORY_REGEX ''signed: a. smith'' = None"
  "sanitize_name (splitext_root (basename_of ''/docs/signed.docx'')) = ''signed''"
  "strftime_compact morning = ''20250809T070500Z''"
  "strftime_compact evening = ''20250809T193012Z''"
  by code_simp+

lemma signed_file_run:
  assumes "env_outputs_dir env = ''/out''" "\<And>p. env_can_save env p"
  shows "\<exists>rep. analyze_file env signed_file True False = Inr rep \<and>
           annotated_file rep = Some ''/out/annotated_signed.docx'' \<and>
           report_file rep =
             Some (''/out/report_signed_'' @ strftime_compact (env_now env) @ ''.json'')"
proof -
  let ?doc = "[\<lparr>par_style = None, par_runs = [Text_Run ''Signed: A. Smith'' False False]\<rparr>]"
  have doc: "file_document signed_file = Inr ?doc" by (simp add: signed_file_def)
  obtain rep where run: "analyze_file env signed_file True False = Inr rep"
    using analyze_file_returns [OF doc, of env True False] by (elim exE)
  have path: "file_path signed_file = ''/docs/signed.docx''" by (simp add: signed_file_def)
  have none: "snd (foldl (paragraph_checks store b t)
                     (signature_check store b t [(0, ''Signed: A. Smith'')]
                        (join [CHR 0x0A] (map snd [(0 :: int, ''Signed: A. Smith'')])))
                     [(0, ''Signed: A. Smith'')]) = []" for store b t
    by (simp add: signature_check_def paragraph_checks_def jurisdiction_check_def
        ambiguity_check_def signatory_check_def signed_file_facts Let_def)
  have annotated: "annotated_file rep = Some ''/out/annotated_signed.docx''"
    unfolding analyze_file_paths(2) [OF doc run] signed_file_facts(1) none path
      signed_file_facts(8)
    using assms by (simp add: save_annotated_document_def)
  have report: "report_file rep =
      Some (''/out/report_signed_'' @ strftime_compact (env_now env) @ ''.json'')"
    unfolding analyze_file_paths(1) [OF doc run] report_path_of_def path signed_file_facts(8)
    using assms by simp
  show ?thesis
    by (rule exI [of _ rep]) (intro conjI run annotated report)
qed

lemma clocks: "clock_in_range morning" "clock_in_range evening" "morning \<noteq> evening"
  by (simp_all add: clock_in_range_def morning_def evening_def)

theorem report_name_sanitized_and_timestamped_witness:
  "clock_in_range morning \<and> clock_in_range evening \<and> morning \<noteq> evening \<and>
   (\<exists>rep rep'.
      analyze_file (example_env\<lparr>env_now := morning\<rparr>) signed_file True False = Inr rep \<and>
      analyze_file (example_env\<lparr>env_now := evening\<rparr>) signed_file True False = Inr rep' \<and>
      report_file rep = Some ''/out/report_signed_20250809T070500Z.json'' \<and>
      report_file rep' = Some ''/out/report_signed_20250809T193012Z.json'') \<and>
   ''/out/report_signed_20250809T070500Z.json'' \<noteq> ''/out/report_signed_20250809T193012Z.json''"
proof -
  let ?m = "example_env\<lparr>env_now := morning\<rparr>"
  let ?e = "example_env\<lparr>env_now := evening\<rparr>"
  have env: "env_outputs_dir ?m = ''/out''" "env_can_save ?m p"
    "env_outputs_dir ?e = ''/out''" "env_can_save ?e p" for p
    by (simp_all add: example_env_def)
  obtain rep where rep: "analyze_file ?m signed_file True False = Inr rep"
    "report_file rep = Some (''/out/report_signed_'' @ strftime_compact (env_now ?m) @ ''.json'')"
    using signed_file_run [of ?m, OF env(1,2)] by (elim exE conjE)
  obtain rep' where rep': "analyze_file ?e signed_file True False = Inr rep'"
    "report_file rep' = Some (''/out/report_signed_'' @ strftime_compact (env_now ?e) @ ''.json'')"
    using signed_file_run [of ?e, OF env(3,4)] by (elim exE conjE)
  have p: "report_file rep = Some ''/out/report_signed_20250809T070500Z.json''"
    using rep(2) by (simp add: signed_file_facts)
  have p': "report_file rep' = Some ''/out/report_signed_20250809T193012Z.json''"
    using rep'(2) by (simp add: signed_file_facts)
  have "analyze_file ?m signed_file True False = Inr rep \<and>
      analyze_file ?e signed_file True False = Inr rep' \<and>
      report_file rep = Some ''/out/report_signed_20250809T070500Z.json'' \<and>
      report_file rep' = Some ''/out/report_signed_20250809T193012Z.json'' \<and>
      env_outputs_dir ?e = env_outputs_dir ?m \<and>
      clock_in_range (env_now ?m) \<and> clock_in_range (env_now ?e) \<and>
      env_now ?m \<noteq> env_now ?e"
    using rep(1) rep'(1) p p' clocks by (simp add: example_env_def)
  with report_name_sanitized_and_timestamped [of _ ?m signed_file True False]
  have differ: "''/out/report_signed_20250809T070500Z.json'' \<noteq>
      ''/out/report_signed_20250809T193012Z.json''"
    by blast
  have runs: "\<exists>rep rep'.
      analyze_file ?m signed_file True False = Inr rep \<and>
      analyze_file ?e signed_file True False = Inr rep' \<and>
      report_file rep = Some ''/out/report_signed_20250809T070500Z.json'' \<and>
      report_file rep' = Some ''/out/report_signed_20250809T193012Z.json''"
    by (rule exI [of _ rep], rule exI [of _ rep']) (intro conjI rep(1) rep'(1) p p')
  show ?thesis
    by (intro conjI clocks runs differ)
qed

text \<open>
  C9 as stated fails for the annotated artifact: two runs on the same file at different
  times record the same path for it, since that name carries no timestamp. And
  sanitizing does not remove a character outside the class: it puts an underscore in
  its place.
\<close>

theorem annotated_path_collision_counterexample:
  "(case analyze_file (example_env\<lparr>env_now := morning\<rparr>) signed_file True False of
      Inl e \<Rightarrow> None
    | Inr rep \<Rightarrow> annotated_file rep) = Some ''/out/annotated_signed.docx'' \<and>
   (case analyze_file (example_env\<lparr>env_now := evening\<rparr>) signed_file True False of
      Inl e \<Rightarrow> None
    | Inr rep \<Rightarrow> annotated_file rep) = Some ''/out/annotated_signed.docx'' \<and>
   strftime_compact morning \<noteq> strftime_compact evening \<and>
   sanitize_name ''nda v2'' = ''nda_v2''"
proof -
  let ?m = "example_env\<lparr>env_now := morning\<rparr>"
  let ?e = "example_env\<lparr>env_now := evening\<rparr>"
  have env: "env_outputs_dir ?m = ''/out''" "env_can_save ?m p"
    "env_outputs_dir ?e = ''/out''" "env_can_save ?e p" for p
    by (simp_all add: example_env_def)
  obtain rep where rep: "analyze_file ?m signed_file True False = Inr rep"
    "annotated_file rep = Some ''/out/annotated_signed.docx''"
    using signed_file_run [of ?m, OF env(1,2)] by (elim exE conjE)
  obtain rep' where rep': "analyze_file ?e signed_file True False = Inr rep'"
    "annotated_file rep' = Some ''/out/annotated_signed.docx''"
    using signed_file_run [of ?e, OF env(3,4)] by (elim exE conjE)
  have s: "sanitize_name ''nda v2'' = ''nda_v2''" by code_simp
  show ?thesis
    using rep rep' s by (simp add: signed_file_facts)
qed

end
